theory Spec2Isabelle
  imports Complex_Main "HOL-Library.Word" "HOL-Library.Multiset"
begin

section \<open>JavaScript values\<close>

text \<open>
  A JavaScript string is a sequence of UTF-16 code units; \<open>length\<close>, \<open>slice\<close>, \<open>trim\<close>
  and the regular expressions of \<^verbatim>\<open>scripts/storage.js\<close> (none has the \<open>u\<close> flag) all work
  on code units.
\<close>

type_synonym jchar = "16 word"
type_synonym jstring = "jchar list"

definition ascii :: "string \<Rightarrow> jstring" where
  "ascii s = map of_char s"

text \<open>
  Numbers only matter through their truthiness here (\<open>0\<close>, \<open>-0\<close> and \<open>NaN\<close> are falsy),
  so a finite double is represented by the rational it denotes.
\<close>

datatype jsnum = NaN | Infinity bool | Finite rat

text \<open>
  The values the functions can be handed: \<open>undefined\<close> and the JSON values. An object is
  the list of its own enumerable properties in insertion order, each key once.
\<close>

datatype jsval =
    JUndefined
  | JNull
  | JBool bool
  | JNum jsnum
  | JStr jstring
  | JArr "jsval list"
  | JObj "(jstring \<times> jsval) list"

text \<open>\<open>!v\<close> is \<open>\<not> truthy v\<close>.\<close>

fun truthy :: "jsval \<Rightarrow> bool" where
  "truthy JUndefined = False"
| "truthy JNull = False"
| "truthy (JBool b) = b"
| "truthy (JNum n) = (n \<noteq> NaN \<and> n \<noteq> Finite 0)"
| "truthy (JStr s) = (s \<noteq> [])"
| "truthy (JArr xs) = True"
| "truthy (JObj kvs) = True"

fun is_string :: "jsval \<Rightarrow> bool" where
  "is_string (JStr s) = True"
| "is_string _ = False"

section \<open>InputProcessor\<close>

subsection \<open>The string primitives\<close>

text \<open>
  The characters removed by \<open>String.prototype.trim\<close> and matched by \<open>\s\<close>: ECMAScript's
  WhiteSpace and LineTerminator productions.
\<close>

definition is_space :: "jchar \<Rightarrow> bool" where
  "is_space c \<longleftrightarrow>
     c \<in> set [0x09, 0x0A, 0x0B, 0x0C, 0x0D, 0x20, 0xA0, 0x1680,
              0x2028, 0x2029, 0x202F, 0x205F, 0x3000, 0xFEFF]
     \<or> (0x2000 \<le> c \<and> c \<le> 0x200A)"

definition trim :: "jstring \<Rightarrow> jstring" where
  "trim s = rev (dropWhile is_space (rev (dropWhile is_space s)))"

text \<open>\<open>s.replace(/\s+/g, ' ')\<close>: every maximal run of whitespace becomes one U+0020.\<close>

function replace_spaces :: "jstring \<Rightarrow> jstring" where
  "replace_spaces [] = []"
| "replace_spaces (c # cs) =
     (if is_space c then 0x20 # replace_spaces (dropWhile is_space cs)
      else c # replace_spaces cs)"
  by pat_completeness auto
termination
  by (relation "measure length") (auto simp: length_dropWhile_le less_Suc_eq_le)

text \<open>\<open>s.slice(0, n)\<close> for a non-negative \<open>n\<close>.\<close>

definition slice0 :: "nat \<Rightarrow> jstring \<Rightarrow> jstring" where
  "slice0 n s = take n s"

text \<open>
  The separator class \<open>/[,\<dots>]/\<close> as the source spells it: U+002C, the literal fullwidth
  comma U+FF0C, the ideographic comma U+3001 and the escape for U+FF0C, which is the
  fullwidth comma again.
\<close>

definition separators :: "jchar list" where
  "separators = [0x2C, 0xFF0C, 0x3001, 0xFF0C]"

definition is_separator :: "jchar \<Rightarrow> bool" where
  "is_separator c \<longleftrightarrow> c \<in> set separators"

text \<open>\<open>separatorRegex.test(text)\<close>\<close>

definition regex_test :: "jstring \<Rightarrow> bool" where
  "regex_test s \<longleftrightarrow> (\<exists>c \<in> set s. is_separator c)"

text \<open>
  \<open>text.split(re)\<close> for a regular expression that matches exactly one character and has
  no capture group: scan the string, closing the current segment at every match. Empty
  segments, also the leading and the trailing one, are kept.
\<close>

fun split_scan :: "(jchar \<Rightarrow> bool) \<Rightarrow> jstring \<Rightarrow> jstring \<Rightarrow> jstring list" where
  "split_scan p cur [] = [cur]"
| "split_scan p cur (c # cs) =
     (if p c then cur # split_scan p [] cs else split_scan p (cur @ [c]) cs)"

definition split_regex :: "jstring \<Rightarrow> jstring list" where
  "split_regex s = split_scan is_separator [] s"

subsection \<open>sanitizeItem and parseInput\<close>

fun sanitizeItem :: "jsval \<Rightarrow> jstring" where
  "sanitizeItem (JStr s) =
     (if s = [] then [] else slice0 200 (replace_spaces (trim s)))"
| "sanitizeItem _ = []"

fun parseInput :: "jsval \<Rightarrow> jstring list" where
  "parseInput (JStr s) =
     (if s = [] then []
      else let items = (if regex_test s then split_regex s else [s])
           in filter (\<lambda>item. length item > 0) (map (\<lambda>item. sanitizeItem (JStr item)) items))"
| "parseInput _ = []"


section \<open>The environment of TodoStorage\<close>

text \<open>
  A string handed to \<open>JSON.parse\<close> is represented by what the parser makes of it: the
  empty string, a text that is not JSON, or a text denoting a value. \<open>JSON.stringify\<close>
  produces the text of the value as a later \<open>JSON.parse\<close> reads it back.
\<close>

datatype json_text = Empty | Malformed | Json jsval

datatype js_error =
    TypeError
  | SyntaxError
  | QuotaExceededError
  | SecurityError
  | InvalidDataFormat

text \<open>
  An item of the collection: \<open>validateItem\<close> builds every item with exactly these four
  properties.
\<close>

record item =
  item_id :: jsval
  item_text :: jstring
  completed :: bool
  createdAt :: jsval

text \<open>
  \<open>new Date(v)\<close>: an object is first converted to a primitive, which throws a
  \<open>TypeError\<close> when neither its \<open>valueOf\<close> nor its \<open>toString\<close> gives one (a parsed
  object may hide them behind properties of its own, which are no functions); otherwise
  the date has a time value, in milliseconds, or is invalid.
\<close>

datatype date = Conversion_throws | Invalid_Date | Time_value int

text \<open>
  What the program cannot decide itself: the clock, the random generator, the \<open>Date\<close>
  constructor, the behaviour of \<open>localStorage\<close>, and the order in which
  \<open>Array.prototype.sort\<close> leaves a list when the comparator is not consistent, which
  ECMAScript leaves to the engine. Clock and generator are indexed by the number of
  queries made so far, the storage calls by the number of calls of their kind.
\<close>

record world =
  now_iso :: "nat \<Rightarrow> jstring"
  now_ms :: "nat \<Rightarrow> nat"
  random36 :: "nat \<Rightarrow> jstring"
  new_Date :: "jsval \<Rightarrow> date"
  sort_order :: "item list \<Rightarrow> item list"
  getItem_throws :: "nat \<Rightarrow> bool"
  setItem_error :: "nat \<Rightarrow> jstring \<Rightarrow> json_text \<Rightarrow> js_error option"
  removeItem_throws :: "nat \<Rightarrow> bool"

text \<open>
  The state: the string stored under \<open>STORAGE_KEY\<close> (\<open>None\<close> when the key is absent)
  and counters of the queries and calls made so far.
\<close>

record state =
  storage :: "json_text option"
  clock :: nat
  n_getItem :: nat
  n_setItem :: nat
  n_removeItem :: nat
  n_load :: nat
  n_save :: nat

text \<open>A call either returns a value or throws, and leaves a state in both cases.\<close>

datatype 'a result = Returns 'a state | Throws js_error state

definition and_then :: "'a result \<Rightarrow> ('a \<Rightarrow> state \<Rightarrow> 'b result) \<Rightarrow> 'b result" where
  "and_then m f = (case m of Returns a s \<Rightarrow> f a s | Throws e s \<Rightarrow> Throws e s)"

definition try_catch :: "'a result \<Rightarrow> (js_error \<Rightarrow> state \<Rightarrow> 'a result) \<Rightarrow> 'a result" where
  "try_catch m h = (case m of Returns a s \<Rightarrow> Returns a s | Throws e s \<Rightarrow> h e s)"

definition STORAGE_KEY :: jstring where
  "STORAGE_KEY = ascii ''quickTodoList''"

definition VERSION :: jstring where
  "VERSION = ascii ''1.0.0''"

definition getItem :: "world \<Rightarrow> state \<Rightarrow> jstring \<Rightarrow> json_text option result" where
  "getItem w st key =
     (let st' = st\<lparr>n_getItem := Suc (n_getItem st)\<rparr>
      in if getItem_throws w (n_getItem st) then Throws SecurityError st'
         else Returns (if key = STORAGE_KEY then storage st else None) st')"

definition setItem :: "world \<Rightarrow> state \<Rightarrow> jstring \<Rightarrow> json_text \<Rightarrow> unit result" where
  "setItem w st key txt =
     (let st' = st\<lparr>n_setItem := Suc (n_setItem st)\<rparr>
      in case setItem_error w (n_setItem st) key txt of
           Some e \<Rightarrow> Throws e st'
         | None \<Rightarrow> Returns () (if key = STORAGE_KEY then st'\<lparr>storage := Some txt\<rparr> else st'))"

definition removeItem :: "world \<Rightarrow> state \<Rightarrow> jstring \<Rightarrow> unit result" where
  "removeItem w st key =
     (let st' = st\<lparr>n_removeItem := Suc (n_removeItem st)\<rparr>
      in if removeItem_throws w (n_removeItem st) then Throws SecurityError st'
         else Returns () (if key = STORAGE_KEY then st'\<lparr>storage := None\<rparr> else st'))"

definition JSON_parse :: "json_text \<Rightarrow> state \<Rightarrow> jsval result" where
  "JSON_parse txt st =
     (case txt of Json v \<Rightarrow> Returns v st | _ \<Rightarrow> Throws SyntaxError st)"

text \<open>
  \<open>JSON.stringify\<close> followed by \<open>JSON.parse\<close>: a property whose value is \<open>undefined\<close>
  is left out, \<open>undefined\<close> in an array and a number that is not finite become \<open>null\<close>.
\<close>

definition undefined_to_null :: "jsval \<Rightarrow> jsval" where
  "undefined_to_null v = (if v = JUndefined then JNull else v)"

primrec json_of :: "jsval \<Rightarrow> jsval" where
  "json_of JUndefined = JUndefined"
| "json_of JNull = JNull"
| "json_of (JBool b) = JBool b"
| "json_of (JNum n) = (case n of Finite q \<Rightarrow> JNum n | _ \<Rightarrow> JNull)"
| "json_of (JStr s) = JStr s"
| "json_of (JArr xs) = JArr (map (\<lambda>x. undefined_to_null (json_of x)) xs)"
| "json_of (JObj kvs) =
     JObj (filter (\<lambda>kv. snd kv \<noteq> JUndefined) (map (map_prod id json_of) kvs))"

definition JSON_stringify :: "jsval \<Rightarrow> json_text" where
  "JSON_stringify v = Json (json_of v)"


section \<open>TodoStorage\<close>

subsection \<open>Objects\<close>

text \<open>
  \<open>load\<close> builds every document with the four properties of \<open>getDefaultData\<close> and
  whatever else the stored object carried.
\<close>

record document =
  version :: jsval
  items :: "item list"
  lastUpdated :: jsval
  settings :: jsval
  extras :: "(jstring \<times> jsval) list"

definition item_val :: "item \<Rightarrow> jsval" where
  "item_val it =
     JObj [(ascii ''id'', item_id it), (ascii ''text'', JStr (item_text it)),
           (ascii ''completed'', JBool (completed it)), (ascii ''createdAt'', createdAt it)]"

text \<open>
  The document as an object. Its properties are only ever read by key; the list has the
  four known ones first, whereas JavaScript would enumerate integer-like keys of the
  other properties before them.
\<close>

definition doc_val :: "document \<Rightarrow> jsval" where
  "doc_val d =
     JObj ([(ascii ''version'', version d), (ascii ''items'', JArr (map item_val (items d))),
            (ascii ''lastUpdated'', lastUpdated d), (ascii ''settings'', settings d)]
           @ extras d)"

text \<open>
  \<open>v.key\<close> for a \<open>v\<close> that is neither \<open>null\<close> nor \<open>undefined\<close>, and a key that no
  prototype defines (\<open>items\<close>, \<open>id\<close>, \<open>text\<close>, \<open>completed\<close>, \<open>createdAt\<close>).
\<close>

fun member :: "jsval \<Rightarrow> jstring \<Rightarrow> jsval" where
  "member (JObj kvs) key = (case map_of kvs key of Some v \<Rightarrow> v | None \<Rightarrow> JUndefined)"
| "member _ key = JUndefined"

text \<open>\<open>v.key\<close> for any \<open>v\<close>: reading a property of \<open>null\<close> or \<open>undefined\<close> throws.\<close>

definition get_prop :: "jsval \<Rightarrow> jstring \<Rightarrow> state \<Rightarrow> jsval result" where
  "get_prop v key st =
     (if v = JNull \<or> v = JUndefined then Throws TypeError st else Returns (member v key) st)"

fun is_array :: "jsval \<Rightarrow> bool" where
  "is_array (JArr xs) = True"
| "is_array _ = False"

fun elements :: "jsval \<Rightarrow> jsval list" where
  "elements (JArr xs) = xs"
| "elements _ = []"

text \<open>\<open>typeof v === 'object'\<close>\<close>

fun typeof_object :: "jsval \<Rightarrow> bool" where
  "typeof_object JNull = True"
| "typeof_object (JArr xs) = True"
| "typeof_object (JObj kvs) = True"
| "typeof_object _ = False"

text \<open>
  \<open>a === b\<close> where \<open>a\<close> is a value just parsed by \<open>load\<close>: an object or an array is a
  fresh reference and equals nothing the caller holds.
\<close>

fun strict_eq :: "jsval \<Rightarrow> jsval \<Rightarrow> bool" where
  "strict_eq JUndefined JUndefined = True"
| "strict_eq JNull JNull = True"
| "strict_eq (JBool a) (JBool b) = (a = b)"
| "strict_eq (JNum a) (JNum b) = (a = b \<and> a \<noteq> NaN)"
| "strict_eq (JStr a) (JStr b) = (a = b)"
| "strict_eq _ _ = False"

text \<open>Decimal digits of a number, as string concatenation renders it.\<close>

function dec :: "nat \<Rightarrow> jstring" where
  "dec n = (if n < 10 then [of_nat (48 + n)] else dec (n div 10) @ [of_nat (48 + n mod 10)])"
  by pat_completeness auto
termination
  by (relation "measure id") auto

declare dec.simps [simp del]

text \<open>
  The own enumerable properties that \<open>{...v}\<close> copies: those of an object, the indexed
  elements of an array, the indexed characters of a string, none of anything else.
\<close>

fun own_props :: "jsval \<Rightarrow> (jstring \<times> jsval) list" where
  "own_props (JObj kvs) = kvs"
| "own_props (JArr xs) = map (\<lambda>i. (dec i, xs ! i)) [0..<length xs]"
| "own_props (JStr s) = map (\<lambda>i. (dec i, JStr [s ! i])) [0..<length s]"
| "own_props _ = []"

text \<open>Setting a property keeps its place when the object has it, and appends it otherwise.\<close>

fun obj_put :: "(jstring \<times> jsval) list \<Rightarrow> jstring \<Rightarrow> jsval \<Rightarrow> (jstring \<times> jsval) list" where
  "obj_put [] key v = [(key, v)]"
| "obj_put ((k, x) # kvs) key v =
     (if k = key then (key, v) # kvs else (k, x) # obj_put kvs key v)"

definition spread :: "(jstring \<times> jsval) list \<Rightarrow> jsval \<Rightarrow> (jstring \<times> jsval) list" where
  "spread base v = fold (\<lambda>kv acc. obj_put acc (fst kv) (snd kv)) (own_props v) base"

text \<open>\<open>xs.findIndex(p)\<close>, with \<open>None\<close> for \<open>-1\<close>.\<close>

fun findIndex :: "('a \<Rightarrow> bool) \<Rightarrow> 'a list \<Rightarrow> nat option" where
  "findIndex p [] = None"
| "findIndex p (x # xs) =
     (if p x then Some 0 else map_option Suc (findIndex p xs))"

subsection \<open>Clock and identifiers\<close>

definition new_Date_toISOString :: "world \<Rightarrow> state \<Rightarrow> jsval result" where
  "new_Date_toISOString w st =
     Returns (JStr (now_iso w (clock st))) (st\<lparr>clock := Suc (clock st)\<rparr>)"

definition generateUUID :: "world \<Rightarrow> state \<Rightarrow> jsval result" where
  "generateUUID w st =
     Returns (JStr (ascii ''todo-'' @ dec (now_ms w (clock st)) @ ascii ''-''
                    @ random36 w (Suc (clock st))))
             (st\<lparr>clock := Suc (Suc (clock st))\<rparr>)"

definition getDefaultData :: "world \<Rightarrow> state \<Rightarrow> document result" where
  "getDefaultData w st =
     and_then (new_Date_toISOString w st) (\<lambda>now st1.
       Returns \<lparr>version = JStr VERSION, items = [], lastUpdated = now,
                settings = JObj [(ascii ''theme'', JStr (ascii ''auto'')),
                                 (ascii ''animations'', JBool True)],
                extras = []\<rparr> st1)"

subsection \<open>validateItem\<close>

definition validateItem :: "world \<Rightarrow> state \<Rightarrow> jsval \<Rightarrow> item option result" where
  "validateItem w st raw =
     (if \<not> truthy raw \<or> \<not> typeof_object raw then Returns None st
      else
        and_then (if truthy (member raw (ascii ''id''))
                  then Returns (member raw (ascii ''id'')) st
                  else generateUUID w st) (\<lambda>new_id st1.
        let new_text = sanitizeItem (if truthy (member raw (ascii ''text''))
                                     then member raw (ascii ''text'') else JStr []);
            new_completed = truthy (member raw (ascii ''completed''))
        in and_then (if truthy (member raw (ascii ''createdAt''))
                     then Returns (member raw (ascii ''createdAt'')) st1
                     else new_Date_toISOString w st1) (\<lambda>new_created st2.
           Returns (Some \<lparr>item_id = new_id, item_text = new_text,
                           completed = new_completed, createdAt = new_created\<rparr>) st2)))"

text \<open>\<open>raws.map(item => this.validateItem(item))\<close>, left to right.\<close>

fun map_validateItem :: "world \<Rightarrow> state \<Rightarrow> jsval list \<Rightarrow> item option list result" where
  "map_validateItem w st [] = Returns [] st"
| "map_validateItem w st (raw # raws) =
     and_then (validateItem w st raw) (\<lambda>r st1.
     and_then (map_validateItem w st1 raws) (\<lambda>rs st2.
       Returns (r # rs) st2))"

text \<open>\<open>.filter(Boolean)\<close> on the results of \<open>validateItem\<close> drops the \<open>null\<close>s.\<close>

fun filter_Boolean :: "item option list \<Rightarrow> item list" where
  "filter_Boolean [] = []"
| "filter_Boolean (None # rs) = filter_Boolean rs"
| "filter_Boolean (Some it # rs) = it # filter_Boolean rs"

text \<open>
  \<open>{...dflt, ...parsed}\<close> for a parsed object: the four properties of the default
  document take the parsed object's values where it has them, its other properties follow.
\<close>

definition known_keys :: "jstring list" where
  "known_keys = [ascii ''version'', ascii ''items'', ascii ''lastUpdated'', ascii ''settings'']"

definition spread_document :: "document \<Rightarrow> jsval \<Rightarrow> document" where
  "spread_document dflt parsed =
     (let kvs = own_props parsed;
          pick = (\<lambda>key d. case map_of kvs key of Some v \<Rightarrow> v | None \<Rightarrow> d)
      in \<lparr>version = pick (ascii ''version'') (version dflt),
          items = items dflt,
          lastUpdated = pick (ascii ''lastUpdated'') (lastUpdated dflt),
          settings = pick (ascii ''settings'') (settings dflt),
          extras = filter (\<lambda>kv. fst kv \<notin> set known_keys) kvs\<rparr>)"


subsection \<open>load\<close>

definition load_try :: "world \<Rightarrow> state \<Rightarrow> document result" where
  "load_try w st =
     and_then (getItem w st STORAGE_KEY) (\<lambda>data st1.
       case data of
         None \<Rightarrow> getDefaultData w st1
       | Some Empty \<Rightarrow> getDefaultData w st1
       | Some txt \<Rightarrow>
           and_then (JSON_parse txt st1) (\<lambda>parsed st2.
             if \<not> truthy parsed \<or> \<not> is_array (member parsed (ascii ''items''))
             then getDefaultData w st2
             else
               and_then (getDefaultData w st2) (\<lambda>dflt st3.
               and_then (map_validateItem w st3 (elements (member parsed (ascii ''items''))))
                 (\<lambda>rs st4.
                   Returns ((spread_document dflt parsed)\<lparr>items := filter_Boolean rs\<rparr>) st4))))"

definition load :: "world \<Rightarrow> state \<Rightarrow> document result" where
  "load w st =
     try_catch (load_try w (st\<lparr>n_load := Suc (n_load st)\<rparr>))
       (\<lambda>error st'. getDefaultData w st')"

subsection \<open>save and the quota recovery\<close>

text \<open>
  The comparator of the recovery's sort, \<open>new Date(b.createdAt) - new Date(a.createdAt)\<close>,
  for two items whose dates can be built; a \<open>NaN\<close> result, which an invalid date gives,
  counts as \<open>0\<close>.
\<close>

fun is_time :: "date \<Rightarrow> bool" where
  "is_time (Time_value t) = True"
| "is_time _ = False"

definition compare_created :: "world \<Rightarrow> item \<Rightarrow> item \<Rightarrow> int" where
  "compare_created w a b =
     (case (new_Date w (createdAt b), new_Date w (createdAt a)) of
        (Time_value tb, Time_value ta) \<Rightarrow> tb - ta
      | _ \<Rightarrow> 0)"

text \<open>
  \<open>Array.prototype.sort\<close> is stable, and for a consistent comparator it leaves the list
  sorted: that order is unique, and is computed here by a stable insertion sort. The
  comparator above is consistent exactly when every date is valid (a \<open>NaN\<close> result is
  none). Otherwise the order is the engine's own, some rearrangement of the list, which
  the world supplies; an answer that is no rearrangement is not listened to.
\<close>

fun insert_item :: "world \<Rightarrow> item \<Rightarrow> item list \<Rightarrow> item list" where
  "insert_item w x [] = [x]"
| "insert_item w x (y # ys) =
     (if compare_created w x y \<le> 0 then x # y # ys else y # insert_item w x ys)"

definition sort_items :: "world \<Rightarrow> item list \<Rightarrow> item list" where
  "sort_items w xs =
     (if list_all (\<lambda>x. is_time (new_Date w (createdAt x))) xs
      then foldr (insert_item w) xs []
      else let ys = sort_order w xs in if mset ys = mset xs then ys else xs)"

text \<open>
  The call \<open>xs.sort(comparator)\<close>: a list of two or more elements has each of them
  compared at least once, so the call throws when one of the dates cannot be built.
\<close>

definition Array_sort :: "world \<Rightarrow> state \<Rightarrow> item list \<Rightarrow> item list result" where
  "Array_sort w st xs =
     (if 2 \<le> length xs \<and> list_ex (\<lambda>x. new_Date w (createdAt x) = Conversion_throws) xs
      then Throws TypeError st
      else Returns (sort_items w xs) st)"

definition handleStorageQuotaExceeded :: "world \<Rightarrow> state \<Rightarrow> unit result" where
  "handleStorageQuotaExceeded w st =
     try_catch
       (and_then (load w st) (\<lambda>data st1.
          if length (items data) > 100
          then and_then (Array_sort w st1 (items data)) (\<lambda>sorted st2.
                 let recentItems = take 50 sorted;
                     data' = data\<lparr>items := recentItems\<rparr>
                 in setItem w st2 STORAGE_KEY (JSON_stringify (doc_val data')))
          else Returns () st1))
       (\<lambda>error st'. Returns () st')"

text \<open>\<open>{...data, lastUpdated: now, version: this.VERSION}\<close>\<close>

definition dataToSave :: "jsval \<Rightarrow> jsval \<Rightarrow> jsval" where
  "dataToSave data now =
     JObj (obj_put (obj_put (spread [] data) (ascii ''lastUpdated'') now)
                   (ascii ''version'') (JStr VERSION))"

definition save_try :: "world \<Rightarrow> state \<Rightarrow> jsval \<Rightarrow> bool result" where
  "save_try w st data =
     (if \<not> truthy data \<or> \<not> is_array (member data (ascii ''items''))
      then Returns False st
      else
        and_then (new_Date_toISOString w st) (\<lambda>now st1.
        and_then (setItem w st1 STORAGE_KEY (JSON_stringify (dataToSave data now)))
          (\<lambda>u st2. Returns True st2)))"

definition save :: "world \<Rightarrow> state \<Rightarrow> jsval \<Rightarrow> bool result" where
  "save w st data =
     try_catch (save_try w (st\<lparr>n_save := Suc (n_save st)\<rparr>) data)
       (\<lambda>error st'.
          if error = QuotaExceededError
          then and_then (handleStorageQuotaExceeded w st') (\<lambda>u st''. Returns False st'')
          else Returns False st')"

subsection \<open>The item operations\<close>

definition addItem :: "world \<Rightarrow> state \<Rightarrow> jsval \<Rightarrow> item option result" where
  "addItem w st text =
     (let sanitized = sanitizeItem text
      in if sanitized = [] then Returns None st
         else
           and_then (load w st) (\<lambda>data st1.
           and_then (generateUUID w st1) (\<lambda>new_id st2.
           and_then (new_Date_toISOString w st2) (\<lambda>now st3.
           let newItem = \<lparr>item_id = new_id, item_text = sanitized,
                           completed = False, createdAt = now\<rparr>;
               data' = data\<lparr>items := items data @ [newItem]\<rparr>
           in and_then (save w st3 (doc_val data')) (\<lambda>ok st4.
                Returns (if ok then Some newItem else None) st4)))))"

text \<open>
  The \<open>for ... of\<close> loop of \<open>addItems\<close>, carrying \<open>data.items\<close> and \<open>newItems\<close>.
\<close>

fun addItems_loop ::
  "world \<Rightarrow> state \<Rightarrow> jsval list \<Rightarrow> item list \<Rightarrow> item list \<Rightarrow> (item list \<times> item list) result"
where
  "addItems_loop w st [] data_items newItems = Returns (data_items, newItems) st"
| "addItems_loop w st (text # rest) data_items newItems =
     (let sanitized = sanitizeItem text
      in if sanitized \<noteq> []
         then
           and_then (generateUUID w st) (\<lambda>new_id st1.
           and_then (new_Date_toISOString w st1) (\<lambda>now st2.
           let newItem = \<lparr>item_id = new_id, item_text = sanitized,
                           completed = False, createdAt = now\<rparr>
           in addItems_loop w st2 rest (data_items @ [newItem]) (newItems @ [newItem])))
         else addItems_loop w st rest data_items newItems)"

definition addItems :: "world \<Rightarrow> state \<Rightarrow> jsval \<Rightarrow> item list result" where
  "addItems w st textArray =
     (if \<not> is_array textArray then Returns [] st
      else
        and_then (load w st) (\<lambda>data st1.
        and_then (addItems_loop w st1 (elements textArray) (items data) []) (\<lambda>r st2.
        let data' = data\<lparr>items := fst r\<rparr>; newItems = snd r
        in if length newItems > 0
           then and_then (save w st2 (doc_val data')) (\<lambda>ok st3. Returns newItems st3)
           else Returns newItems st2)))"

text \<open>
  The object literal of \<open>updateItem\<close>,
  \<open>{...old, ...updates, id, text: updates.text ? sanitizeItem(updates.text) : old.text}\<close>,
  where \<open>updates_text\<close> is \<open>updates.text\<close>.
\<close>

definition updatedItem :: "item \<Rightarrow> jsval \<Rightarrow> jsval \<Rightarrow> jsval \<Rightarrow> jsval" where
  "updatedItem old updates ident updates_text =
     JObj (obj_put
             (obj_put (spread (spread [] (item_val old)) updates) (ascii ''id'') ident)
             (ascii ''text'')
             (if truthy updates_text then JStr (sanitizeItem updates_text)
              else JStr (item_text old)))"

text \<open>
  \<open>validateItem\<close> is handed an object literal in \<open>updateItem\<close> and so never returns
  \<open>null\<close> there; the model returns \<open>null\<close> at once in that case, which does not arise.
\<close>

definition updateItem :: "world \<Rightarrow> state \<Rightarrow> jsval \<Rightarrow> jsval \<Rightarrow> item option result" where
  "updateItem w st ident updates =
     and_then (load w st) (\<lambda>data st1.
       case findIndex (\<lambda>item. strict_eq (item_id item) ident) (items data) of
         None \<Rightarrow> Returns None st1
       | Some itemIndex \<Rightarrow>
           and_then (get_prop updates (ascii ''text'') st1) (\<lambda>updates_text st2.
           and_then (validateItem w st2
                       (updatedItem (items data ! itemIndex) updates ident updates_text))
             (\<lambda>validated st3.
                case validated of
                  None \<Rightarrow> Returns None st3
                | Some new_item \<Rightarrow>
                    let data' = data\<lparr>items := (items data)[itemIndex := new_item]\<rparr>
                    in and_then (save w st3 (doc_val data')) (\<lambda>ok st4.
                         Returns (if ok then Some new_item else None) st4))))"

definition deleteItem :: "world \<Rightarrow> state \<Rightarrow> jsval \<Rightarrow> bool result" where
  "deleteItem w st ident =
     and_then (load w st) (\<lambda>data st1.
       let initialLength = length (items data);
           data' = data\<lparr>items := filter (\<lambda>item. \<not> strict_eq (item_id item) ident) (items data)\<rparr>
       in if length (items data') < initialLength
          then save w st1 (doc_val data')
          else Returns False st1)"

definition clearAll :: "world \<Rightarrow> state \<Rightarrow> bool result" where
  "clearAll w st =
     and_then (getDefaultData w st) (\<lambda>data st1. save w st1 (doc_val data))"

subsection \<open>Export, import and the storage probe\<close>

text \<open>
  \<open>importData\<close> takes the string it is given as \<open>JSON.parse\<close> reads it; an argument
  that is not a string is first turned into one.
\<close>

definition exportData :: "world \<Rightarrow> state \<Rightarrow> json_text result" where
  "exportData w st =
     and_then (load w st) (\<lambda>data st1. Returns (JSON_stringify (doc_val data)) st1)"

definition importData :: "world \<Rightarrow> state \<Rightarrow> json_text \<Rightarrow> bool result" where
  "importData w st jsonString =
     try_catch
       (and_then (JSON_parse jsonString st) (\<lambda>data st1.
          if \<not> truthy data \<or> \<not> is_array (member data (ascii ''items''))
          then Throws InvalidDataFormat st1
          else
            and_then (getDefaultData w st1) (\<lambda>dflt st2.
            and_then (map_validateItem w st2 (elements (member data (ascii ''items''))))
              (\<lambda>rs st3.
                let validatedData = (spread_document dflt data)\<lparr>items := filter_Boolean rs\<rparr>
                in save w st3 (doc_val validatedData)))))
       (\<lambda>error st'. Returns False st')"

definition isStorageAvailable :: "world \<Rightarrow> state \<Rightarrow> bool result" where
  "isStorageAvailable w st =
     try_catch
       (let testKey = ascii ''__storage_test__''
        in and_then (setItem w st testKey Malformed) (\<lambda>u st1.
           and_then (removeItem w st1 testKey) (\<lambda>u' st2.
             Returns True st2)))
       (\<lambda>error st'. Returns False st')"


section \<open>Notions used in the properties\<close>

subsection \<open>Results and frames\<close>

fun state_of :: "'a result \<Rightarrow> state" where
  "state_of (Returns a s) = s"
| "state_of (Throws e s) = s"

fun value_of :: "'a result \<Rightarrow> 'a option" where
  "value_of (Returns a s) = Some a"
| "value_of (Throws e s) = None"

text \<open>The later state differs from the earlier one by the clock only.\<close>

definition ticked :: "state \<Rightarrow> state \<Rightarrow> bool" where
  "ticked st st' \<longleftrightarrow> st' = st\<lparr>clock := clock st'\<rparr>"

text \<open>The later state is the earlier one after one \<open>load\<close>: one \<open>getItem\<close>, no write.\<close>

definition loaded :: "state \<Rightarrow> state \<Rightarrow> bool" where
  "loaded st st' \<longleftrightarrow>
     st' = st\<lparr>clock := clock st', n_getItem := Suc (n_getItem st), n_load := Suc (n_load st)\<rparr>"

text \<open>The properties a document carries besides the four of the default document.\<close>

definition no_known_keys :: "document \<Rightarrow> bool" where
  "no_known_keys d \<longleftrightarrow> list_all (\<lambda>kv. fst kv \<notin> set known_keys) (extras d)"

subsection \<open>Segments and tokens\<close>

text \<open>
  A string cut at separators: \<open>segs\<close> are the pieces and \<open>ds\<close> the separators between
  them, so that putting them together again gives the string back.
\<close>

fun interleave :: "jstring list \<Rightarrow> jchar list \<Rightarrow> jstring" where
  "interleave (seg # segs) (d # ds) = seg @ d # interleave segs ds"
| "interleave (seg # segs) [] = seg"
| "interleave [] ds = []"

definition segments_between ::
  "(jchar \<Rightarrow> bool) \<Rightarrow> jstring \<Rightarrow> jstring list \<Rightarrow> jchar list \<Rightarrow> bool" where
  "segments_between p s segs ds \<longleftrightarrow>
     length segs = Suc (length ds) \<and> list_all p ds \<and>
     list_all (\<lambda>seg. list_all (\<lambda>c. \<not> p c) seg) segs \<and> interleave segs ds = s"

text \<open>
  The whitespace-free tokens of a string, in order, and their concatenation with single
  spaces: what trimming and collapsing whitespace leaves of a string.
\<close>

fun tokens_scan :: "jstring \<Rightarrow> jstring \<Rightarrow> jstring list" where
  "tokens_scan cur [] = (if cur = [] then [] else [cur])"
| "tokens_scan cur (c # cs) =
     (if is_space c then (if cur = [] then tokens_scan [] cs else cur # tokens_scan [] cs)
      else tokens_scan (cur @ [c]) cs)"

definition ws_tokens :: "jstring \<Rightarrow> jstring list" where
  "ws_tokens s = tokens_scan [] s"

fun join_spaces :: "jstring list \<Rightarrow> jstring" where
  "join_spaces [] = []"
| "join_spaces [t] = t"
| "join_spaces (t # ts) = t @ 0x20 # join_spaces ts"

definition trim_end :: "jstring \<Rightarrow> jstring" where
  "trim_end s = rev (dropWhile is_space (rev s))"

subsection \<open>What save writes\<close>

text \<open>
  The text \<open>save\<close> hands to \<open>setItem\<close>, the state after the attempt, and the documents
  \<open>save\<close> does not turn away.
\<close>

definition save_text :: "world \<Rightarrow> state \<Rightarrow> jsval \<Rightarrow> json_text" where
  "save_text w st data = JSON_stringify (dataToSave data (JStr (now_iso w (clock st))))"

definition after_write :: "state \<Rightarrow> state" where
  "after_write st =
     st\<lparr>n_save := Suc (n_save st), clock := Suc (clock st), n_setItem := Suc (n_setItem st)\<rparr>"

definition savable :: "jsval \<Rightarrow> bool" where
  "savable data \<longleftrightarrow> truthy data \<and> is_array (member data (ascii ''items''))"

subsection \<open>Reading the store\<close>

text \<open>The \<open>items\<close> array of the stored document, when the store holds one.\<close>

definition stored_items :: "state \<Rightarrow> jsval list option" where
  "stored_items st =
     (case storage st of
        Some (Json v) \<Rightarrow>
          (if is_array (member v (ascii ''items''))
           then Some (elements (member v (ascii ''items''))) else None)
      | _ \<Rightarrow> None)"

text \<open>An item as \<open>JSON.stringify\<close> writes it.\<close>

definition item_json :: "item \<Rightarrow> jsval" where
  "item_json it = json_of (item_val it)"

subsection \<open>A concrete environment\<close>

text \<open>
  A world whose storage never fails and whose clock stands still. Its \<open>Date\<close>
  constructor reads \<open>null\<close>, a boolean and a number in the range of time values as
  that time and the two timestamps used below as their times; it throws on an object
  that has a \<open>toString\<close> property of its own, which in a parsed object is never a
  function; and it takes any other value for no date. Its engine leaves a list that it
  cannot sort consistently in the order it has. And an empty store.
\<close>

definition world0 :: world where
  "world0 =
     \<lparr>now_iso = (\<lambda>n. ascii ''2024-01-01T00:00:00.000Z''),
      now_ms = (\<lambda>n. 1704067200000),
      random36 = (\<lambda>n. ascii ''k3x9q2m1z''),
      new_Date = (\<lambda>v. case v of
          JUndefined \<Rightarrow> Invalid_Date
        | JNull \<Rightarrow> Time_value 0
        | JBool b \<Rightarrow> Time_value (if b then 1 else 0)
        | JNum n \<Rightarrow>
            (case n of
               Finite q \<Rightarrow>
                 (if \<bar>q\<bar> \<le> 8640000000000000
                  then Time_value (if 0 \<le> q then \<lfloor>q\<rfloor> else \<lceil>q\<rceil>) else Invalid_Date)
             | _ \<Rightarrow> Invalid_Date)
        | JStr s \<Rightarrow>
            (if s = ascii ''2023-12-31T00:00:00.000Z'' then Time_value 1703980800000
             else if s = ascii ''2024-01-01T00:00:00.000Z'' then Time_value 1704067200000
             else Invalid_Date)
        | JArr xs \<Rightarrow> Invalid_Date
        | JObj kvs \<Rightarrow>
            (if map_of kvs (ascii ''toString'') = None then Invalid_Date
             else Conversion_throws)),
      sort_order = (\<lambda>xs. xs),
      getItem_throws = (\<lambda>n. False),
      setItem_error = (\<lambda>n key t. None),
      removeItem_throws = (\<lambda>n. False)\<rparr>"

definition state0 :: state where
  "state0 = \<lparr>storage = None, clock = 0, n_getItem = 0, n_setItem = 0, n_removeItem = 0,
             n_load = 0, n_save = 0\<rparr>"

text \<open>A store that holds one item, \<open>milk\<close> with the id \<open>a\<close>.\<close>

definition item_a :: item where
  "item_a = \<lparr>item_id = JStr (ascii ''a''), item_text = ascii ''milk'', completed = False,
             createdAt = JStr (ascii ''2023-12-31T00:00:00.000Z'')\<rparr>"

definition doc_a :: document where
  "doc_a = \<lparr>version = JStr VERSION, items = [item_a],
            lastUpdated = JStr (ascii ''2023-12-31T00:00:00.000Z''),
            settings = JObj [(ascii ''theme'', JStr (ascii ''auto'')),
                             (ascii ''animations'', JBool True)],
            extras = []\<rparr>"

definition state_a :: state where
  "state_a = state0\<lparr>storage := Some (Json (doc_val doc_a))\<rparr>"

subsection \<open>Items and updates\<close>

text \<open>
  What \<open>validateItem\<close> guarantees of an item: an id that is truthy and a text that
  \<open>sanitizeItem\<close> has produced.
\<close>

definition repaired :: "item \<Rightarrow> bool" where
  "repaired it \<longleftrightarrow> truthy (item_id it) \<and> (\<exists>v. item_text it = sanitizeItem v)"

text \<open>The value \<open>{...v}\<close> copies for a key: the last one, should the list repeat the key.\<close>

definition own_prop :: "jsval \<Rightarrow> jstring \<Rightarrow> jsval option" where
  "own_prop v key = map_of (rev (own_props v)) key"

text \<open>The texts of a batch that \<open>addItems\<close> keeps: the sanitized ones that are not empty.\<close>

definition kept_texts :: "jsval list \<Rightarrow> jstring list" where
  "kept_texts texts = filter (\<lambda>t. t \<noteq> []) (map sanitizeItem texts)"

text \<open>A storage that refuses every write for quota.\<close>

definition world_full :: world where
  "world_full = world0\<lparr>setItem_error := (\<lambda>n key t. Some QuotaExceededError)\<rparr>"

subsection \<open>The quota recovery\<close>

text \<open>The time an item was created, when its \<open>createdAt\<close> is a valid date.\<close>

definition created_ms :: "world \<Rightarrow> item \<Rightarrow> int option" where
  "created_ms w it =
     (case new_Date w (createdAt it) of Time_value t \<Rightarrow> Some t | _ \<Rightarrow> None)"

text \<open>\<open>a\<close> was created no earlier than \<open>b\<close>.\<close>

definition not_older :: "world \<Rightarrow> item \<Rightarrow> item \<Rightarrow> bool" where
  "not_older w a b \<longleftrightarrow>
     (case (created_ms w a, created_ms w b) of
        (Some ta, Some tb) \<Rightarrow> tb \<le> ta
      | _ \<Rightarrow> False)"

text \<open>The document the recovery writes: the 50 first items of the sorted ones.\<close>

definition pruned :: "world \<Rightarrow> document \<Rightarrow> document" where
  "pruned w data = data\<lparr>items := take 50 (sort_items w (items data))\<rparr>"

text \<open>A property of the stored document, when the store holds one.\<close>

definition stored_member :: "state \<Rightarrow> jstring \<Rightarrow> jsval option" where
  "stored_member st key =
     (case storage st of Some (Json v) \<Rightarrow> Some (member v key) | _ \<Rightarrow> None)"

text \<open>A store of 101 items.\<close>

definition state_101 :: state where
  "state_101 = state0\<lparr>storage := Some (Json (doc_val (doc_a\<lparr>items := replicate 101 item_a\<rparr>)))\<rparr>"

subsection \<open>Valid items\<close>

text \<open>
  An Item of the data model: its id and its creation time are non-empty strings, and its
  text is not empty and in sanitized form.
\<close>

definition valid_item :: "item \<Rightarrow> bool" where
  "valid_item it \<longleftrightarrow>
     (case item_id it of JStr i \<Rightarrow> i \<noteq> [] | _ \<Rightarrow> False)
     \<and> (case createdAt it of JStr c \<Rightarrow> c \<noteq> [] | _ \<Rightarrow> False)
     \<and> item_text it \<noteq> []
     \<and> sanitizeItem (JStr (item_text it)) = item_text it"

text \<open>
  What an item needs to come back from the store as it went in: an id and a creation time
  that are truthy JSON values, and a text in sanitized form.
\<close>

definition stable_item :: "item \<Rightarrow> bool" where
  "stable_item it \<longleftrightarrow>
     truthy (item_id it) \<and> json_of (item_id it) = item_id it
     \<and> truthy (createdAt it) \<and> json_of (createdAt it) = createdAt it
     \<and> sanitizeItem (JStr (item_text it)) = item_text it"

text \<open>
  A storage that refuses its first write for quota and accepts the later ones, and a
  store of 120 items created one after the other, a millisecond apart.
\<close>

definition world_once :: world where
  "world_once =
     world0\<lparr>setItem_error := (\<lambda>n key t. if n = 0 then Some QuotaExceededError else None)\<rparr>"

definition item_n :: "nat \<Rightarrow> item" where
  "item_n n = \<lparr>item_id = JStr (dec n), item_text = ascii ''milk'', completed = False,
               createdAt = JNum (Finite (of_nat (Suc n)))\<rparr>"

definition doc_120 :: document where
  "doc_120 = doc_a\<lparr>items := map item_n [0..<120]\<rparr>"

definition state_120 :: state where
  "state_120 = state0\<lparr>storage := Some (Json (doc_val doc_120))\<rparr>"

text \<open>
  A store of 101 items in the order they were added: \<open>milk\<close> of 31 December 2023, an
  item whose \<open>createdAt\<close> is the string \<open>unknown\<close>, and 99 items of 1 January 2024.
\<close>

definition item_undated :: item where
  "item_undated = \<lparr>item_id = JStr (ascii ''x''), item_text = ascii ''milk'', completed = False,
                   createdAt = JStr (ascii ''unknown'')\<rparr>"

definition item_late :: "nat \<Rightarrow> item" where
  "item_late n = \<lparr>item_id = JStr (dec n), item_text = ascii ''milk'', completed = False,
                  createdAt = JStr (ascii ''2024-01-01T00:00:00.000Z'')\<rparr>"

definition doc_mixed :: document where
  "doc_mixed = doc_a\<lparr>items := item_a # item_undated # map item_late [0..<99]\<rparr>"

definition state_mixed :: state where
  "state_mixed = state0\<lparr>storage := Some (Json (doc_val doc_mixed))\<rparr>"

text \<open>
  A store of 101 items, the first with an object for its \<open>createdAt\<close> that has a
  \<open>toString\<close> property.
\<close>

definition item_opaque :: item where
  "item_opaque = \<lparr>item_id = JStr (ascii ''x''), item_text = ascii ''milk'', completed = False,
                  createdAt = JObj [(ascii ''toString'', JNum (Finite 0))]\<rparr>"

definition doc_opaque :: document where
  "doc_opaque = doc_a\<lparr>items := item_opaque # map item_late [0..<100]\<rparr>"

definition state_opaque :: state where
  "state_opaque = state0\<lparr>storage := Some (Json (doc_val doc_opaque))\<rparr>"

subsection \<open>What load returns and what the operations leave in the store\<close>

text \<open>
  The entries of a stored \<open>items\<close> array that \<open>validateItem\<close> does not drop: the
  objects (and arrays).
\<close>

definition is_record :: "jsval \<Rightarrow> bool" where
  "is_record raw \<longleftrightarrow> truthy raw \<and> typeof_object raw"

text \<open>An id as \<open>generateUUID\<close> builds it begins with \<open>todo-\<close>.\<close>

definition generated_id :: "jsval \<Rightarrow> bool" where
  "generated_id v \<longleftrightarrow> (case v of JStr s \<Rightarrow> take 5 s = ascii ''todo-'' | _ \<Rightarrow> False)"

text \<open>
  The item is the record as repaired: the id is the record's when that is truthy and a
  generated one otherwise, the text is the record's text sanitized, \<open>completed\<close> is the
  record's turned into a boolean, and \<open>createdAt\<close> is the record's when that is truthy
  and a time read from the clock otherwise.
\<close>

definition repair_of :: "world \<Rightarrow> jsval \<Rightarrow> item \<Rightarrow> bool" where
  "repair_of w raw it \<longleftrightarrow>
     (if truthy (member raw (ascii ''id'')) then item_id it = member raw (ascii ''id'')
      else generated_id (item_id it))
     \<and> item_text it = sanitizeItem (member raw (ascii ''text''))
     \<and> completed it = truthy (member raw (ascii ''completed''))
     \<and> (if truthy (member raw (ascii ''createdAt''))
        then createdAt it = member raw (ascii ''createdAt'')
        else (\<exists>n. createdAt it = JStr (now_iso w n)))"

text \<open>
  The records that \<open>load\<close> reads: those of the stored \<open>items\<close> array, when the storage
  answers and holds a document with such an array, and none otherwise.
\<close>

definition loaded_records :: "world \<Rightarrow> state \<Rightarrow> jsval list" where
  "loaded_records w st =
     (if getItem_throws w (n_getItem st) then []
      else case stored_items st of Some records \<Rightarrow> filter is_record records | None \<Rightarrow> [])"

text \<open>The store holds a document whose items are repaired items, as JSON writes them.\<close>

definition store_repaired :: "state \<Rightarrow> bool" where
  "store_repaired st \<longleftrightarrow>
     (\<exists>its. list_all repaired its \<and> stored_items st = Some (map item_json its))"

text \<open>After an operation the store holds what it held before, or such a document.\<close>

definition leaves_repaired :: "state \<Rightarrow> state \<Rightarrow> bool" where
  "leaves_repaired st st' \<longleftrightarrow> storage st' = storage st \<or> store_repaired st'"

text \<open>A text with an item that has no text, and two items of one id.\<close>

definition bad_import :: json_text where
  "bad_import =
     Json (JObj [(ascii ''items'',
                  JArr [JObj [(ascii ''id'', JStr (ascii ''x''))],
                        JObj [(ascii ''id'', JStr (ascii ''x'')),
                              (ascii ''text'', JStr (ascii ''milk''))]])])"

text \<open>A document whose one item has no id, and a space for its text.\<close>

definition unchecked_doc :: jsval where
  "unchecked_doc = JObj [(ascii ''items'', JArr [JObj [(ascii ''text'', JStr [0x20])]])]"

text \<open>The call returns: no exception reaches the caller.\<close>

fun returns :: "'a result \<Rightarrow> bool" where
  "returns (Returns a s) = True"
| "returns (Throws e s) = False"

text \<open>
  A store whose one item has a text of 201 code units, 199 times \<open>a\<close>, a space and
  \<open>b\<close>; and the item as \<open>load\<close> reads it, its text cut after the space.
\<close>

definition long_text :: jstring where
  "long_text = replicate 199 0x61 @ [0x20, 0x62]"

definition item_long :: item where
  "item_long = \<lparr>item_id = JStr (ascii ''a''), item_text = replicate 199 0x61 @ [0x20],
                completed = False, createdAt = JStr (ascii ''2023-12-31T00:00:00.000Z'')\<rparr>"

definition state_long :: state where
  "state_long =
     state0\<lparr>storage := Some (Json (doc_val (doc_a\<lparr>items := [item_long\<lparr>item_text := long_text\<rparr>]\<rparr>)))\<rparr>"

section \<open>Properties\<close>

subsection \<open>Strings\<close>

lemma of_char_less_256: "(of_char c :: nat) < 256"
proof -
  have "(of_char c :: nat) mod 256 < 256" by simp
  then show ?thesis by (simp only: of_char_mod_256)
qed

lemma unat_of_char: "unat (of_char c :: 16 word) = of_char c"
proof -
  have "(of_char c :: 16 word) = of_nat (of_char c)"
    by (simp only: of_nat_of_char)
  then have "unat (of_char c :: 16 word) = unat (of_nat (of_char c) :: 16 word)"
    by (rule arg_cong)
  also have "\<dots> = (of_char c :: nat) mod 2 ^ LENGTH(16)"
    by (rule unat_of_nat)
  also have "\<dots> = of_char c"
  proof (rule mod_less)
    have "(256::nat) \<le> 2 ^ LENGTH(16)" by simp
    with of_char_less_256 [of c] show "(of_char c :: nat) < 2 ^ LENGTH(16)"
      by (rule less_le_trans)
  qed
  finally show ?thesis .
qed

lemma of_char_word_eq_iff [simp]: "(of_char c :: 16 word) = of_char d \<longleftrightarrow> c = d"
proof
  assume "(of_char c :: 16 word) = of_char d"
  then have "unat (of_char c :: 16 word) = unat (of_char d :: 16 word)" by (rule arg_cong)
  then have "(of_char c :: nat) = of_char d" by (simp only: unat_of_char)
  then show "c = d" by (rule of_char_eqI)
next
  assume "c = d" then show "(of_char c :: 16 word) = of_char d" by (rule arg_cong)
qed

lemma inj_of_char_word: "inj (of_char :: char \<Rightarrow> 16 word)"
  by (rule injI) (simp only: of_char_word_eq_iff)

lemma ascii_eq_iff [simp]: "ascii a = ascii b \<longleftrightarrow> a = b"
  unfolding ascii_def by (rule inj_map_eq_map [OF inj_of_char_word])

subsection \<open>Splitting\<close>

lemma split_scan_no_match:
  "list_all (\<lambda>c. \<not> p c) seg \<Longrightarrow> split_scan p cur seg = [cur @ seg]"
  by (induction seg arbitrary: cur) auto

lemma split_scan_first_match:
  "list_all (\<lambda>c. \<not> p c) seg \<Longrightarrow> p d \<Longrightarrow>
   split_scan p cur (seg @ d # rest) = (cur @ seg) # split_scan p [] rest"
  by (induction seg arbitrary: cur) auto

lemma split_scan_unique:
  "segments_between p s segs ds \<Longrightarrow> split_scan p cur s = (cur @ hd segs) # tl segs"
proof (induction ds arbitrary: segs s cur)
  case Nil
  then obtain seg where "segs = [seg]"
    by (cases segs) (auto simp: segments_between_def)
  with Nil show ?case
    by (auto simp: segments_between_def split_scan_no_match)
next
  case (Cons d ds)
  from Cons.prems have len: "length segs = Suc (Suc (length ds))"
    by (simp add: segments_between_def)
  then obtain seg segs' where segs: "segs = seg # segs'"
    by (cases segs) auto
  with len have ne: "segs' \<noteq> []"
    by auto
  from Cons.prems segs have rest: "segments_between p (interleave segs' ds) segs' ds"
    and s: "s = seg @ d # interleave segs' ds" and d: "p d"
    and seg: "list_all (\<lambda>c. \<not> p c) seg"
    by (auto simp: segments_between_def)
  from Cons.IH [OF rest, of "[]"] ne
  have "split_scan p [] (interleave segs' ds) = segs'"
    by (cases segs') auto
  with s d seg segs show ?case
    by (simp add: split_scan_first_match)
qed

lemma split_scan_length: "length (split_scan p cur s) = Suc (length (filter p s))"
  by (induction s arbitrary: cur) auto

lemma split_scan_interleave: "interleave (split_scan p cur s) (filter p s) = cur @ s"
  by (induction s arbitrary: cur) auto

lemma split_scan_clean:
  "list_all (\<lambda>c. \<not> p c) cur \<Longrightarrow>
   list_all (\<lambda>seg. list_all (\<lambda>c. \<not> p c) seg) (split_scan p cur s)"
  by (induction s arbitrary: cur) auto

lemma split_scan_segments: "segments_between p s (split_scan p [] s) (filter p s)"
  using split_scan_clean [of p "[]" s] split_scan_interleave [of p "[]" s]
  by (simp add: segments_between_def split_scan_length list_all_iff)

subsection \<open>Sanitizing\<close>

lemma trim_end_Nil [simp]: "trim_end [] = []"
  by (simp add: trim_end_def)

lemma trim_end_Cons:
  "trim_end (c # cs) = (if list_all is_space (c # cs) then [] else c # trim_end cs)"
  by (auto simp: trim_end_def dropWhile_append list_all_iff dropWhile_eq_Nil_conv)

lemma trim_trim_end: "trim s = trim_end (dropWhile is_space s)"
  by (simp add: trim_def trim_end_def)

lemma dropWhile_all_space: "list_all is_space s \<Longrightarrow> dropWhile is_space s = []"
  by (simp add: list_all_iff)

lemma dropWhile_trim_end:
  "dropWhile is_space (trim_end s) = trim_end (dropWhile is_space s)"
  by (induction s) (auto simp: trim_end_Cons dropWhile_all_space)

lemma tokens_scan_Nil_iff: "tokens_scan cur s = [] \<longleftrightarrow> cur = [] \<and> list_all is_space s"
  by (induction s arbitrary: cur) auto

lemma join_spaces_Cons:
  "join_spaces (t # ts) = (if ts = [] then t else t @ 0x20 # join_spaces ts)"
  by (cases ts) auto

lemma join_tokens_scan:
  "\<not> list_ex is_space cur \<Longrightarrow>
   join_spaces (tokens_scan cur s) =
     (if cur = [] then replace_spaces (trim_end (dropWhile is_space s))
      else cur @ replace_spaces (trim_end s))"
proof (induction s arbitrary: cur)
  case Nil
  then show ?case by simp
next
  case (Cons c cs)
  show ?case
  proof (cases "is_space c")
    case True
    show ?thesis
    proof (cases "cur = []")
      case True
      with \<open>is_space c\<close> Cons.IH [of "[]"] show ?thesis by simp
    next
      case False
      show ?thesis
      proof (cases "list_all is_space cs")
        case True
        with False \<open>is_space c\<close> show ?thesis
          by (simp add: trim_end_Cons tokens_scan_Nil_iff [THEN iffD2])
      next
        case nall: False
        then have "tokens_scan [] cs \<noteq> []"
          by (simp add: tokens_scan_Nil_iff)
        with False \<open>is_space c\<close> nall Cons.IH [of "[]"] show ?thesis
          by (simp add: trim_end_Cons join_spaces_Cons dropWhile_trim_end)
      qed
    qed
  next
    case False
    with Cons.prems have "\<not> list_ex is_space (cur @ [c])" by simp
    from Cons.IH [OF this] False show ?thesis
      by (simp add: trim_end_Cons)
  qed
qed

lemma replace_trim_tokens: "replace_spaces (trim s) = join_spaces (ws_tokens s)"
  using join_tokens_scan [of "[]" s] by (simp add: ws_tokens_def trim_trim_end)

lemma replace_spaces_no_space: "\<not> list_ex is_space s \<Longrightarrow> replace_spaces s = s"
  by (induction s) auto

lemma dropWhile_no_match: "\<not> list_ex p s \<Longrightarrow> dropWhile p s = s"
  by (cases s) auto

lemma trim_no_space: "\<not> list_ex is_space s \<Longrightarrow> trim s = s"
  by (simp add: trim_def dropWhile_no_match list_ex_iff)

lemma is_separator_iff: "is_separator c \<longleftrightarrow> c = 0x2C \<or> c = 0xFF0C \<or> c = 0x3001"
  by (auto simp: is_separator_def separators_def)

subsection \<open>parseInput\<close>

text \<open>
  C1. \<open>parseInput\<close> of a value that is not a string, or of the empty string, is the
  empty sequence. When the string contains one of the separators of the class (U+002C,
  U+FF0C, U+3001 and U+FF0C once more), it can be cut at the separators into segments
  that contain none, and however it is so cut, the result is the sanitized segments that
  are not empty, in their order. When it contains no separator, the result is the
  sanitized string alone, and nothing when that is empty.
\<close>

theorem parseInput_segments:
  "(\<not> is_string v \<or> v = JStr [] \<longrightarrow> parseInput v = [])
   \<and> (s \<noteq> [] \<and> (\<exists>c \<in> set s. c \<in> set separators) \<longrightarrow>
        (\<exists>segs ds. segments_between is_separator s segs ds)
        \<and> (\<forall>segs ds. segments_between is_separator s segs ds \<longrightarrow>
              parseInput (JStr s) =
                filter (\<lambda>t. t \<noteq> []) (map (\<lambda>seg. sanitizeItem (JStr seg)) segs)))
   \<and> (s \<noteq> [] \<and> \<not> (\<exists>c \<in> set s. c \<in> set separators) \<longrightarrow>
        parseInput (JStr s) =
          (if sanitizeItem (JStr s) = [] then [] else [sanitizeItem (JStr s)]))"
proof (intro conjI impI allI)
  assume "\<not> is_string v \<or> v = JStr []"
  then show "parseInput v = []" by (cases v) auto
next
  show "\<exists>segs ds. segments_between is_separator s segs ds"
    using split_scan_segments by blast
next
  fix segs ds
  assume s: "s \<noteq> [] \<and> (\<exists>c \<in> set s. c \<in> set separators)"
    and seg: "segments_between is_separator s segs ds"
  from seg have "segs \<noteq> []" by (auto simp: segments_between_def)
  with split_scan_unique [OF seg, of "[]"] have "split_regex s = segs"
    by (simp add: split_regex_def)
  with s show "parseInput (JStr s) =
      filter (\<lambda>t. t \<noteq> []) (map (\<lambda>seg. sanitizeItem (JStr seg)) segs)"
    by (simp add: regex_test_def is_separator_def)
next
  assume "s \<noteq> [] \<and> \<not> (\<exists>c \<in> set s. c \<in> set separators)"
  then show "parseInput (JStr s) =
      (if sanitizeItem (JStr s) = [] then [] else [sanitizeItem (JStr s)])"
    by (simp add: regex_test_def is_separator_def)
qed

lemma sanitize_plain:
  "sanitizeItem (JStr (ascii ''milk'')) = ascii ''milk''"
  "sanitizeItem (JStr (ascii ''bread'')) = ascii ''bread''"
  "sanitizeItem (JStr (ascii ''egg'')) = ascii ''egg''"
  "sanitizeItem (JStr (ascii ''rice'')) = ascii ''rice''"
  by (simp_all add: ascii_def trim_def is_space_def slice0_def)

theorem parseInput_segments_witness:
  "parseInput JNull = []
   \<and> segments_between is_separator
        (ascii ''milk'' @ [0x2C] @ ascii ''bread'' @ [0x3001] @ ascii ''egg'' @ [0xFF0C] @ ascii ''rice'')
        [ascii ''milk'', ascii ''bread'', ascii ''egg'', ascii ''rice''] [0x2C, 0x3001, 0xFF0C]
   \<and> parseInput (JStr (ascii ''milk'' @ [0x2C] @ ascii ''bread'' @ [0x3001] @ ascii ''egg''
                        @ [0xFF0C] @ ascii ''rice''))
       = [ascii ''milk'', ascii ''bread'', ascii ''egg'', ascii ''rice'']
   \<and> parseInput (JStr (ascii ''a b'')) = [ascii ''a b'']"
proof -
  let ?s = "ascii ''milk'' @ [0x2C] @ ascii ''bread'' @ [0x3001] @ ascii ''egg'' @ [0xFF0C] @ ascii ''rice''"
  let ?segs = "[ascii ''milk'', ascii ''bread'', ascii ''egg'', ascii ''rice'']"
  have seg: "segments_between is_separator ?s ?segs [0x2C, 0x3001, 0xFF0C]"
    by (simp add: segments_between_def is_separator_iff ascii_def)
  have ne: "?s \<noteq> [] \<and> (\<exists>c \<in> set ?s. c \<in> set separators)"
    by (simp add: separators_def)
  have 1: "parseInput JNull = []"
    using parseInput_segments [of JNull "[]"] by simp
  have f: "filter (\<lambda>t. t \<noteq> []) (map (\<lambda>seg. sanitizeItem (JStr seg)) ?segs) = ?segs"
    by (simp only: list.map sanitize_plain) (simp add: ascii_def)
  from parseInput_segments [of JNull ?s] ne seg
  have "parseInput (JStr ?s) = filter (\<lambda>t. t \<noteq> []) (map (\<lambda>seg. sanitizeItem (JStr seg)) ?segs)"
    by blast
  from this f have 2: "parseInput (JStr ?s) = ?segs"
    by (rule trans)
  have "ascii ''a b'' \<noteq> [] \<and> \<not> (\<exists>c \<in> set (ascii ''a b''). c \<in> set separators)"
    by (simp add: ascii_def separators_def)
  with parseInput_segments [of JNull "ascii ''a b''"]
  have "parseInput (JStr (ascii ''a b'')) =
      (if sanitizeItem (JStr (ascii ''a b'')) = [] then [] else [sanitizeItem (JStr (ascii ''a b''))])"
    by blast
  moreover have "sanitizeItem (JStr (ascii ''a b'')) = ascii ''a b''"
    by (simp add: ascii_def trim_def is_space_def slice0_def)
  moreover have "ascii ''a b'' \<noteq> []"
    by (simp add: ascii_def)
  ultimately have 3: "parseInput (JStr (ascii ''a b'')) = [ascii ''a b'']"
    by (simp only: if_False)
  from 1 seg 2 3 show ?thesis by blast
qed

subsection \<open>sanitizeItem\<close>

lemma join_tokens_no_space: "\<not> list_ex is_space s \<Longrightarrow> join_spaces (ws_tokens s) = s"
  using replace_trim_tokens [of s] by (simp add: trim_no_space replace_spaces_no_space)

text \<open>
  C2. \<open>sanitizeItem\<close> of a value that is not a string, or of the empty string, is the
  empty string. Of a string it is the whitespace-free tokens of the string joined by
  single U+0020, cut to its first 200 code units: whitespace is trimmed at both ends and
  every run inside is collapsed before the cut. The result never exceeds 200 code units;
  two spaces, \<open>a\<close>, three spaces, \<open>b\<close>, a newline, a tab, \<open>c\<close> and two spaces give
  \<open>a b c\<close>; and a string of 300 code units that trimming and collapsing leave as it
  is gives its first 200 code units.
\<close>

theorem sanitizeItem_tokens:
  "(\<not> is_string v \<or> v = JStr [] \<longrightarrow> sanitizeItem v = [])
   \<and> sanitizeItem (JStr s) = take 200 (join_spaces (ws_tokens s))
   \<and> length (sanitizeItem v) \<le> 200
   \<and> sanitizeItem (JStr [0x20, 0x20, 0x61, 0x20, 0x20, 0x20, 0x62, 0x0A, 0x09, 0x63, 0x20, 0x20])
       = [0x61, 0x20, 0x62, 0x20, 0x63]
   \<and> (length s = 300 \<and> join_spaces (ws_tokens s) = s \<longrightarrow> sanitizeItem (JStr s) = take 200 s)"
proof (intro conjI impI)
  assume "\<not> is_string v \<or> v = JStr []"
  then show "sanitizeItem v = []" by (cases v) auto
next
  show tok: "sanitizeItem (JStr s) = take 200 (join_spaces (ws_tokens s))"
    by (cases "s = []") (simp_all add: slice0_def replace_trim_tokens ws_tokens_def)
  assume "length s = 300 \<and> join_spaces (ws_tokens s) = s"
  with tok show "sanitizeItem (JStr s) = take 200 s" by simp
next
  show "length (sanitizeItem v) \<le> 200"
    by (cases v) (simp_all add: slice0_def)
next
  show "sanitizeItem (JStr [0x20, 0x20, 0x61, 0x20, 0x20, 0x20, 0x62, 0x0A, 0x09, 0x63, 0x20, 0x20])
       = [0x61, 0x20, 0x62, 0x20, 0x63]"
    by (simp add: trim_def is_space_def slice0_def)
qed

theorem sanitizeItem_tokens_witness:
  "length (replicate 300 (0x61 :: jchar)) = 300
   \<and> join_spaces (ws_tokens (replicate 300 0x61)) = replicate 300 0x61
   \<and> sanitizeItem (JStr (replicate 300 0x61)) = replicate 200 0x61
   \<and> sanitizeItem (JBool True) = []"
proof -
  have ns: "\<not> list_ex is_space (replicate 300 (0x61 :: jchar))"
    by (simp add: list_ex_iff is_space_def)
  have j: "join_spaces (ws_tokens (replicate 300 0x61)) = replicate 300 0x61"
    by (rule join_tokens_no_space [OF ns])
  have l: "length (replicate 300 (0x61 :: jchar)) = 300" by simp
  from sanitizeItem_tokens [of "JBool True" "replicate 300 0x61"] l j
  have "sanitizeItem (JStr (replicate 300 0x61)) = take 200 (replicate 300 0x61)"
    and "sanitizeItem (JBool True) = []"
    by simp_all
  with l j show ?thesis by simp
qed

text \<open>
  A string of 300 code units does not always give its first 200: 300 spaces give the
  empty string.
\<close>

theorem sanitizeItem_300_counterexample:
  "length (replicate 300 (0x20 :: jchar)) = 300
   \<and> sanitizeItem (JStr (replicate 300 0x20)) \<noteq> take 200 (replicate 300 0x20)"
  by (simp add: trim_def is_space_def slice0_def dropWhile_eq_Nil_conv)

subsection \<open>Frames of the storage operations\<close>

lemma and_then_Returns [simp]: "and_then (Returns a s) f = f a s"
  by (simp add: and_then_def)

lemma and_then_Throws [simp]: "and_then (Throws e s) f = Throws e s"
  by (simp add: and_then_def)

lemma try_catch_Returns [simp]: "try_catch (Returns a s) h = Returns a s"
  by (simp add: try_catch_def)

lemma try_catch_Throws [simp]: "try_catch (Throws e s) h = h e s"
  by (simp add: try_catch_def)

lemma ticked_refl [simp]: "ticked st st"
  by (simp add: ticked_def)

lemma ticked_trans: "ticked a b \<Longrightarrow> ticked b c \<Longrightarrow> ticked a c"
  by (cases a, cases b, cases c) (simp add: ticked_def)

lemma ticked_upd [simp]: "ticked st (st\<lparr>clock := c\<rparr>)"
  by (simp add: ticked_def)

lemma new_Date_ticks:
  "\<exists>v st'. new_Date_toISOString w st = Returns v st' \<and> ticked st st'"
  by (simp add: new_Date_toISOString_def)

lemma generateUUID_ticks:
  "\<exists>v st'. generateUUID w st = Returns v st' \<and> ticked st st'"
  by (simp add: generateUUID_def)

lemma getDefaultData_ticks:
  "\<exists>d st'. getDefaultData w st = Returns d st' \<and> ticked st st' \<and> items d = [] \<and> extras d = []"
  by (simp add: getDefaultData_def new_Date_toISOString_def)

lemma validateItem_ticks:
  "\<exists>r st'. validateItem w st raw = Returns r st' \<and> ticked st st'"
  by (auto simp: validateItem_def generateUUID_def new_Date_toISOString_def Let_def ticked_def)

lemma map_validateItem_ticks:
  "\<exists>rs st'. map_validateItem w st raws = Returns rs st' \<and> ticked st st'"
proof (induction raws arbitrary: st)
  case Nil
  then show ?case by simp
next
  case (Cons raw raws)
  obtain r st1 where 1: "validateItem w st raw = Returns r st1" "ticked st st1"
    using validateItem_ticks by blast
  obtain rs st2 where 2: "map_validateItem w st1 raws = Returns rs st2" "ticked st1 st2"
    using Cons.IH by blast
  from 1 2 show ?case
    by (auto intro: ticked_trans)
qed

lemma ticked_loaded:
  "ticked (st\<lparr>n_load := Suc (n_load st), n_getItem := Suc (n_getItem st)\<rparr>) st' \<Longrightarrow> loaded st st'"
  by (cases st, cases st') (simp add: ticked_def loaded_def)

lemma loaded_ticked: "loaded st st' \<Longrightarrow> ticked st' st'' \<Longrightarrow> loaded st st''"
  by (cases st, cases st', cases st'') (simp add: ticked_def loaded_def)

lemma load_try_cases:
  "\<exists>d st'. (load_try w st = Returns d st' \<or> (\<exists>e. load_try w st = Throws e st'))
      \<and> ticked (st\<lparr>n_getItem := Suc (n_getItem st)\<rparr>) st'
      \<and> (load_try w st = Returns d st' \<longrightarrow> no_known_keys d)"
proof -
  let ?s = "st\<lparr>n_getItem := Suc (n_getItem st)\<rparr>"
  show ?thesis
  proof (cases "getItem_throws w (n_getItem st)")
    case True
    then show ?thesis by (simp add: load_try_def getItem_def)
  next
    case False
    then have g: "getItem w st STORAGE_KEY = Returns (storage st) ?s"
      by (simp add: getItem_def)
    obtain d0 s0 where d0: "getDefaultData w ?s = Returns d0 s0" "ticked ?s s0" "extras d0 = []"
      using getDefaultData_ticks by blast
    show ?thesis
    proof (cases "storage st")
      case None
      with g d0 show ?thesis by (auto simp: load_try_def no_known_keys_def)
    next
      case (Some stored)
      show ?thesis
      proof (cases stored)
        case Empty
        with Some g d0 show ?thesis by (auto simp: load_try_def no_known_keys_def)
      next
        case Malformed
        with Some g show ?thesis by (auto simp: load_try_def JSON_parse_def)
      next
        case (Json parsed)
        show ?thesis
        proof (cases "\<not> truthy parsed \<or> \<not> is_array (member parsed (ascii ''items''))")
          case True
          with Json Some g d0 show ?thesis
            by (auto simp: load_try_def JSON_parse_def no_known_keys_def)
        next
          case False
          obtain rs s1 where rs:
            "map_validateItem w s0 (elements (member parsed (ascii ''items''))) = Returns rs s1"
            "ticked s0 s1"
            using map_validateItem_ticks by blast
          with False Json Some g d0 show ?thesis
            by (auto simp: load_try_def JSON_parse_def no_known_keys_def spread_document_def
                   Let_def list_all_iff intro: ticked_trans)
        qed
      qed
    qed
  qed
qed

lemma load_returns:
  "\<exists>d st'. load w st = Returns d st' \<and> loaded st st' \<and> no_known_keys d"
proof -
  let ?s = "st\<lparr>n_load := Suc (n_load st)\<rparr>"
  obtain d st' where c: "load_try w ?s = Returns d st' \<or> (\<exists>e. load_try w ?s = Throws e st')"
     "ticked (?s\<lparr>n_getItem := Suc (n_getItem ?s)\<rparr>) st'"
     "load_try w ?s = Returns d st' \<longrightarrow> no_known_keys d"
    using load_try_cases [of w ?s] by blast
  from c(2) have l: "loaded st st'" by (intro ticked_loaded) simp
  from c(1) show ?thesis
  proof
    assume "load_try w ?s = Returns d st'"
    with l c(3) show ?thesis by (auto simp: load_def)
  next
    assume "\<exists>e. load_try w ?s = Throws e st'"
    then obtain e where e: "load_try w ?s = Throws e st'" ..
    obtain d0 s0 where d0: "getDefaultData w st' = Returns d0 s0" "ticked st' s0" "extras d0 = []"
      using getDefaultData_ticks by blast
    from l d0(2) have "loaded st s0" by (rule loaded_ticked)
    with e d0 show ?thesis by (auto simp: load_def no_known_keys_def)
  qed
qed

lemma loaded_fields:
  "loaded st st' \<Longrightarrow>
   storage st' = storage st \<and> n_setItem st' = n_setItem st \<and> n_save st' = n_save st
   \<and> n_load st' = Suc (n_load st) \<and> n_getItem st' = Suc (n_getItem st)
   \<and> n_removeItem st' = n_removeItem st"
  by (cases st, cases st') (simp add: loaded_def)

lemma save_invalid:
  "\<not> savable data \<Longrightarrow> save w st data = Returns False (st\<lparr>n_save := Suc (n_save st)\<rparr>)"
  by (auto simp: save_def save_try_def savable_def)

lemma save_accepted:
  "savable data \<Longrightarrow> setItem_error w (n_setItem st) STORAGE_KEY (save_text w st data) = None \<Longrightarrow>
   save w st data = Returns True ((after_write st)\<lparr>storage := Some (save_text w st data)\<rparr>)"
  by (simp add: save_def save_try_def savable_def new_Date_toISOString_def setItem_def
      save_text_def after_write_def)

lemma save_refused:
  "savable data \<Longrightarrow> setItem_error w (n_setItem st) STORAGE_KEY (save_text w st data) = Some e \<Longrightarrow>
   e \<noteq> QuotaExceededError \<Longrightarrow>
   save w st data = Returns False (after_write st)"
  by (simp add: save_def save_try_def savable_def new_Date_toISOString_def setItem_def
      save_text_def after_write_def)

lemma save_quota:
  "savable data \<Longrightarrow>
   setItem_error w (n_setItem st) STORAGE_KEY (save_text w st data) = Some QuotaExceededError \<Longrightarrow>
   save w st data =
     and_then (handleStorageQuotaExceeded w (after_write st)) (\<lambda>u st''. Returns False st'')"
  by (simp add: save_def save_try_def savable_def new_Date_toISOString_def setItem_def
      save_text_def after_write_def)

lemma handle_cases:
  assumes "load w st = Returns d st1"
  shows "handleStorageQuotaExceeded w st =
     (if length (items d) > 100
         \<and> \<not> list_ex (\<lambda>x. new_Date w (createdAt x) = Conversion_throws) (items d)
      then (case setItem_error w (n_setItem st1) STORAGE_KEY
                   (JSON_stringify (doc_val (pruned w d))) of
              None \<Rightarrow> Returns () (st1\<lparr>n_setItem := Suc (n_setItem st1),
                         storage := Some (JSON_stringify (doc_val (pruned w d)))\<rparr>)
            | Some e \<Rightarrow> Returns () (st1\<lparr>n_setItem := Suc (n_setItem st1)\<rparr>))
      else Returns () st1)"
  using assms
  by (simp add: handleStorageQuotaExceeded_def Array_sort_def setItem_def pruned_def Let_def
      split: option.splits)

lemma handle_returns:
  "\<exists>st'. handleStorageQuotaExceeded w st = Returns () st' \<and> n_save st' = n_save st"
proof -
  obtain d st1 where l: "load w st = Returns d st1" "loaded st st1"
    using load_returns by blast
  then have s: "n_save st1 = n_save st" by (simp add: loaded_fields)
  with handle_cases [OF l(1)] show ?thesis
    by (simp split: option.splits)
qed

lemma save_returns:
  "\<exists>ok st'. save w st data = Returns ok st' \<and> n_save st' = Suc (n_save st)"
proof (cases "savable data")
  case False
  then show ?thesis by (auto simp: save_invalid)
next
  case True
  show ?thesis
  proof (cases "setItem_error w (n_setItem st) STORAGE_KEY (save_text w st data)")
    case None
    with True show ?thesis by (auto simp: save_accepted after_write_def)
  next
    case (Some e)
    show ?thesis
    proof (cases "e = QuotaExceededError")
      case False
      with True Some show ?thesis by (auto simp: save_refused after_write_def)
    next
      case q: True
      obtain st' where "handleStorageQuotaExceeded w (after_write st) = Returns () st'"
        "n_save st' = n_save (after_write st)"
        using handle_returns by blast
      with True Some q show ?thesis by (auto simp: save_quota after_write_def)
    qed
  qed
qed

lemma savable_doc_val [simp]: "savable (doc_val d)"
  by (simp add: savable_def doc_val_def)

subsection \<open>Objects\<close>

lemma map_of_obj_put:
  "map_of (obj_put kvs k v) k' = (if k' = k then Some v else map_of kvs k')"
  by (induction kvs k v rule: obj_put.induct) auto

lemma keys_obj_put: "fst ` set (obj_put kvs k v) = insert k (fst ` set kvs)"
  by (induction kvs k v rule: obj_put.induct) auto

lemma distinct_obj_put:
  "distinct (map fst kvs) \<Longrightarrow> distinct (map fst (obj_put kvs k v))"
  by (induction kvs k v rule: obj_put.induct) (auto simp: keys_obj_put)

lemma distinct_fold_obj_put:
  "distinct (map fst base) \<Longrightarrow>
   distinct (map fst (fold (\<lambda>kv acc. obj_put acc (fst kv) (snd kv)) kvs base))"
  by (induction kvs arbitrary: base) (auto simp: distinct_obj_put)

lemma map_of_fold_obj_put:
  "map_of (fold (\<lambda>kv acc. obj_put acc (fst kv) (snd kv)) kvs base) k =
     (case map_of (rev kvs) k of Some v \<Rightarrow> Some v | None \<Rightarrow> map_of base k)"
  by (induction kvs arbitrary: base)
     (auto simp: map_of_obj_put map_add_def split: option.splits)

lemma distinct_spread: "distinct (map fst (spread [] v))"
  by (simp add: spread_def distinct_fold_obj_put)

lemma map_of_spread:
  "map_of (spread [] (JObj kvs)) k = map_of (rev kvs) k"
  by (simp add: spread_def map_of_fold_obj_put split: option.splits)

lemma map_of_json_filter:
  "distinct (map fst kvs) \<Longrightarrow>
   map_of (filter (\<lambda>kv. snd kv \<noteq> JUndefined) (map (map_prod id json_of) kvs)) k =
     (case map_of kvs k of
        None \<Rightarrow> None
      | Some v \<Rightarrow> if json_of v = JUndefined then None else Some (json_of v))"
proof (induction kvs)
  case Nil
  then show ?case by simp
next
  case (Cons kv kvs)
  obtain k' v' where kv: "kv = (k', v')" by (cases kv)
  from Cons.prems kv have "map_of kvs k' = None"
    by (auto simp: map_of_eq_None_iff)
  with Cons kv show ?case by (auto split: option.splits)
qed

lemma member_dataToSave_items:
  assumes "no_known_keys d"
  shows "member (json_of (dataToSave (doc_val d) now)) (ascii ''items'')
           = JArr (map item_json (items d))"
proof -
  let ?kvs = "obj_put (obj_put (spread [] (doc_val d)) (ascii ''lastUpdated'') now)
                      (ascii ''version'') (JStr VERSION)"
  have dist: "distinct (map fst ?kvs)"
    by (intro distinct_obj_put distinct_spread)
  from assms have "map_of (rev (extras d)) (ascii ''items'') = None"
    by (auto simp: no_known_keys_def known_keys_def list_all_iff map_of_eq_None_iff)
  then have "map_of ?kvs (ascii ''items'') = Some (JArr (map item_val (items d)))"
    by (simp add: map_of_obj_put doc_val_def map_of_spread map_add_def)
  with dist have "map_of (filter (\<lambda>kv. snd kv \<noteq> JUndefined) (map (map_prod id json_of) ?kvs))
      (ascii ''items'') = Some (JArr (map (\<lambda>x. undefined_to_null (json_of x)) (map item_val (items d))))"
    by (simp add: map_of_json_filter)
  moreover have "undefined_to_null (json_of (item_val it)) = item_json it" for it
    by (simp add: undefined_to_null_def item_json_def item_val_def)
  ultimately show ?thesis
    by (simp add: dataToSave_def comp_def)
qed

lemma stored_items_saved:
  "no_known_keys d \<Longrightarrow>
   stored_items (st\<lparr>storage := Some (save_text w st' (doc_val d))\<rparr>)
     = Some (map item_json (items d))"
  by (simp add: stored_items_def save_text_def JSON_stringify_def member_dataToSave_items)

subsection \<open>Looking an item up\<close>

lemma findIndex_None_iff: "findIndex p xs = None \<longleftrightarrow> (\<forall>x \<in> set xs. \<not> p x)"
  by (induction xs) auto

lemma findIndex_Some:
  "findIndex p xs = Some i \<Longrightarrow> i < length xs \<and> p (xs ! i)"
  by (induction xs arbitrary: i) (auto split: if_splits)

subsection \<open>The concrete environment\<close>

lemma ascii_Nil_iff [simp]: "ascii s = [] \<longleftrightarrow> s = []"
  by (simp add: ascii_def)

lemma sanitize_milk: "sanitizeItem (JStr (ascii ''milk'')) = ascii ''milk''"
  by (simp add: ascii_def trim_def is_space_def slice0_def)

lemma load_state_a:
  "load world0 state_a =
     Returns doc_a (state_a\<lparr>clock := 1, n_getItem := 1, n_load := 1\<rparr>)"
  by (simp add: load_def load_try_def getItem_def JSON_parse_def getDefaultData_def
      new_Date_toISOString_def validateItem_def spread_document_def known_keys_def
      world0_def state_a_def state0_def doc_a_def doc_val_def item_val_def item_a_def
      sanitize_milk Let_def del: sanitizeItem.simps)

subsection \<open>updateItem and deleteItem on an absent id\<close>

text \<open>
  C8. When no item of the stored collection, as \<open>load\<close> reads it, has the given id,
  \<open>updateItem\<close> returns \<open>null\<close> whatever the updates are, and has only loaded: the
  stored text, and with it \<open>lastUpdated\<close>, is the same, no \<open>setItem\<close> was attempted
  and \<open>save\<close> was not called.
\<close>

theorem updateItem_absent:
  assumes "load w st = Returns data st1"
    and "\<forall>item \<in> set (items data). \<not> strict_eq (item_id item) ident"
  shows "updateItem w st ident updates = Returns None st1
         \<and> storage st1 = storage st \<and> n_setItem st1 = n_setItem st
         \<and> n_save st1 = n_save st"
proof -
  from assms(2) have "findIndex (\<lambda>item. strict_eq (item_id item) ident) (items data) = None"
    by (simp add: findIndex_None_iff)
  with assms(1) have "updateItem w st ident updates = Returns None st1"
    by (simp add: updateItem_def)
  moreover from load_returns [of w st] assms(1) have "loaded st st1"
    by auto
  ultimately show ?thesis
    by (simp add: loaded_fields)
qed

theorem updateItem_absent_witness:
  "load world0 state_a = Returns doc_a (state_a\<lparr>clock := 1, n_getItem := 1, n_load := 1\<rparr>)
   \<and> items doc_a = [item_a] \<and> \<not> strict_eq (item_id item_a) (JStr (ascii ''b''))
   \<and> updateItem world0 state_a (JStr (ascii ''b'')) (JObj [(ascii ''text'', JStr (ascii ''new''))])
       = Returns None (state_a\<lparr>clock := 1, n_getItem := 1, n_load := 1\<rparr>)
   \<and> storage (state_a\<lparr>clock := 1, n_getItem := 1, n_load := 1\<rparr>) = storage state_a"
proof -
  have h: "\<forall>item \<in> set (items doc_a). \<not> strict_eq (item_id item) (JStr (ascii ''b''))"
    by (simp add: doc_a_def item_a_def)
  from updateItem_absent [OF load_state_a h] load_state_a h show ?thesis
    by (simp add: doc_a_def)
qed

text \<open>
  C9. When no item of the stored collection has the given id, \<open>deleteItem\<close> returns
  \<open>false\<close> and has only loaded: the stored text, and with it \<open>lastUpdated\<close>, is the
  same and no \<open>setItem\<close> was attempted. When some item has the id, \<open>deleteItem\<close> is
  \<open>save\<close> of the loaded document without the items of that id, the others kept in their
  order: it returns what \<open>save\<close> returns, and when the storage accepts the write it
  returns \<open>true\<close> and the store holds exactly the remaining items.
\<close>

theorem deleteItem_spec:
  assumes "load w st = Returns data st1"
  shows "((\<forall>item \<in> set (items data). \<not> strict_eq (item_id item) ident) \<longrightarrow>
            deleteItem w st ident = Returns False st1
            \<and> storage st1 = storage st \<and> n_setItem st1 = n_setItem st
            \<and> n_save st1 = n_save st)
       \<and> ((\<exists>item \<in> set (items data). strict_eq (item_id item) ident) \<longrightarrow>
            deleteItem w st ident =
              save w st1 (doc_val (data\<lparr>items :=
                filter (\<lambda>item. \<not> strict_eq (item_id item) ident) (items data)\<rparr>))
            \<and> (setItem_error w (n_setItem st1) STORAGE_KEY
                  (save_text w st1 (doc_val (data\<lparr>items :=
                     filter (\<lambda>item. \<not> strict_eq (item_id item) ident) (items data)\<rparr>))) = None
                \<longrightarrow> value_of (deleteItem w st ident) = Some True
                    \<and> stored_items (state_of (deleteItem w st ident)) =
                        Some (map item_json
                          (filter (\<lambda>item. \<not> strict_eq (item_id item) ident) (items data)))))"
proof (intro conjI impI)
  let ?keep = "filter (\<lambda>item. \<not> strict_eq (item_id item) ident) (items data)"
  from load_returns [of w st] assms have l: "loaded st st1" and nk: "no_known_keys data"
    by auto
  {
    assume "\<forall>item \<in> set (items data). \<not> strict_eq (item_id item) ident"
    then have "?keep = items data" by (simp add: filter_id_conv)
    with assms show "deleteItem w st ident = Returns False st1"
      by (simp add: deleteItem_def)
    from l show "storage st1 = storage st" "n_setItem st1 = n_setItem st"
      "n_save st1 = n_save st"
      by (simp_all add: loaded_fields)
  }
  assume "\<exists>item \<in> set (items data). strict_eq (item_id item) ident"
  then obtain x where "x \<in> set (items data)" "\<not> \<not> strict_eq (item_id x) ident"
    by auto
  then have "length ?keep < length (items data)"
    by (rule length_filter_less)
  with assms show del: "deleteItem w st ident = save w st1 (doc_val (data\<lparr>items := ?keep\<rparr>))"
    by (simp add: deleteItem_def Let_def)
  assume ok: "setItem_error w (n_setItem st1) STORAGE_KEY
      (save_text w st1 (doc_val (data\<lparr>items := ?keep\<rparr>))) = None"
  from nk have nk': "no_known_keys (data\<lparr>items := ?keep\<rparr>)"
    by (simp add: no_known_keys_def)
  from del ok show "value_of (deleteItem w st ident) = Some True"
    by (simp add: save_accepted)
  from del ok stored_items_saved [OF nk', where st = "after_write st1" and w = w and st' = st1]
  show "stored_items (state_of (deleteItem w st ident)) = Some (map item_json ?keep)"
    by (simp add: save_accepted)
qed

theorem deleteItem_spec_witness:
  "load world0 state_a = Returns doc_a (state_a\<lparr>clock := 1, n_getItem := 1, n_load := 1\<rparr>)
   \<and> items doc_a = [item_a] \<and> \<not> strict_eq (item_id item_a) (JStr (ascii ''b''))
   \<and> deleteItem world0 state_a (JStr (ascii ''b''))
       = Returns False (state_a\<lparr>clock := 1, n_getItem := 1, n_load := 1\<rparr>)
   \<and> strict_eq (item_id item_a) (JStr (ascii ''a''))
   \<and> value_of (deleteItem world0 state_a (JStr (ascii ''a''))) = Some True
   \<and> stored_items (state_of (deleteItem world0 state_a (JStr (ascii ''a'')))) = Some []"
proof -
  let ?st1 = "state_a\<lparr>clock := 1, n_getItem := 1, n_load := 1\<rparr>"
  have b: "\<forall>item \<in> set (items doc_a). \<not> strict_eq (item_id item) (JStr (ascii ''b''))"
    by (simp add: doc_a_def item_a_def)
  have a: "\<exists>item \<in> set (items doc_a). strict_eq (item_id item) (JStr (ascii ''a''))"
    by (simp add: doc_a_def item_a_def)
  have keep: "filter (\<lambda>item. \<not> strict_eq (item_id item) (JStr (ascii ''a''))) (items doc_a) = []"
    by (simp add: doc_a_def item_a_def)
  have ok: "\<forall>t. setItem_error world0 (n_setItem ?st1) STORAGE_KEY t = None"
    by (simp add: world0_def)
  from deleteItem_spec [OF load_state_a, of "JStr (ascii ''b'')"] b
  have 1: "deleteItem world0 state_a (JStr (ascii ''b'')) = Returns False ?st1"
    by blast
  note d = deleteItem_spec [OF load_state_a, of "JStr (ascii ''a'')", THEN conjunct2, THEN mp, OF a,
      THEN conjunct2, THEN mp, OF ok [THEN spec]]
  from d
  have 2: "value_of (deleteItem world0 state_a (JStr (ascii ''a''))) = Some True
    \<and> stored_items (state_of (deleteItem world0 state_a (JStr (ascii ''a'')))) =
        Some (map item_json (filter (\<lambda>item. \<not> strict_eq (item_id item) (JStr (ascii ''a''))) (items doc_a)))" .
  have c: "items doc_a = [item_a] \<and> \<not> strict_eq (item_id item_a) (JStr (ascii ''b''))
      \<and> strict_eq (item_id item_a) (JStr (ascii ''a''))"
    by (simp add: doc_a_def item_a_def)
  from load_state_a c 1 2 show ?thesis
    by (simp add: item_a_def)
qed

subsection \<open>What load returns\<close>

lemma truthy_generateUUID:
  "generateUUID w st = Returns v st' \<Longrightarrow> truthy v"
  by (auto simp: generateUUID_def)

lemma validateItem_repaired:
  assumes "validateItem w st raw = Returns (Some it) st'"
  shows "repaired it"
proof -
  from assms have ok: "truthy raw" "typeof_object raw"
    by (auto simp: validateItem_def split: if_splits)
  obtain u s1 where u: "generateUUID w st = Returns u s1" "truthy u"
    using truthy_generateUUID by (auto simp: generateUUID_def)
  obtain n s2 where n: "new_Date_toISOString w st = Returns n s2"
    by (simp add: new_Date_toISOString_def)
  obtain n' s3 where n': "new_Date_toISOString w s1 = Returns n' s3"
    by (simp add: new_Date_toISOString_def)
  from assms ok u n n'
  have "truthy (item_id it) \<and>
      item_text it = sanitizeItem (if truthy (member raw (ascii ''text''))
                                   then member raw (ascii ''text'') else JStr [])"
    by (auto simp: validateItem_def Let_def simp del: sanitizeItem.simps split: if_splits)
  then show ?thesis
    unfolding repaired_def by blast
qed

lemma map_validateItem_repaired:
  "map_validateItem w st raws = Returns rs st' \<Longrightarrow> list_all repaired (filter_Boolean rs)"
proof (induction raws arbitrary: st rs st')
  case Nil
  then show ?case by simp
next
  case (Cons raw raws)
  obtain r st1 where 1: "validateItem w st raw = Returns r st1"
    using validateItem_ticks by blast
  obtain rs' st2 where 2: "map_validateItem w st1 raws = Returns rs' st2"
    using map_validateItem_ticks by blast
  from Cons.prems 1 2 have rs: "rs = r # rs'" by simp
  from Cons.IH [OF 2] have "list_all repaired (filter_Boolean rs')" .
  with rs 1 show ?case
    by (cases r) (auto dest: validateItem_repaired)
qed

lemma load_try_repaired:
  "load_try w st = Returns d st' \<Longrightarrow> list_all repaired (items d)"
proof (cases "getItem_throws w (n_getItem st)")
  case True
  assume "load_try w st = Returns d st'"
  with True show ?thesis by (simp add: load_try_def getItem_def)
next
  case False
  assume l: "load_try w st = Returns d st'"
  let ?s = "st\<lparr>n_getItem := Suc (n_getItem st)\<rparr>"
  from False have g: "getItem w st STORAGE_KEY = Returns (storage st) ?s"
    by (simp add: getItem_def)
  have dflt: "getDefaultData w s = Returns d' s' \<Longrightarrow> items d' = []" for s d' s'
    by (auto simp: getDefaultData_def new_Date_toISOString_def)
  show ?thesis
  proof (cases "storage st")
    case None
    with g l dflt show ?thesis by (auto simp: load_try_def)
  next
    case (Some stored)
    show ?thesis
    proof (cases stored)
      case Empty
      with Some g l dflt show ?thesis by (auto simp: load_try_def)
    next
      case Malformed
      with Some g l show ?thesis by (auto simp: load_try_def JSON_parse_def)
    next
      case (Json parsed)
      show ?thesis
      proof (cases "\<not> truthy parsed \<or> \<not> is_array (member parsed (ascii ''items''))")
        case True
        with Json Some g l dflt show ?thesis
          by (auto simp: load_try_def JSON_parse_def)
      next
        case False
        obtain d0 s0 where d0: "getDefaultData w ?s = Returns d0 s0"
          using getDefaultData_ticks by blast
        obtain rs s1 where rs:
          "map_validateItem w s0 (elements (member parsed (ascii ''items''))) = Returns rs s1"
          using map_validateItem_ticks by blast
        from False Json Some g l d0 rs have "items d = filter_Boolean rs"
          by (auto simp: load_try_def JSON_parse_def)
        with map_validateItem_repaired [OF rs] show ?thesis by simp
      qed
    qed
  qed
qed

lemma load_repaired:
  assumes "load w st = Returns d st'"
  shows "list_all repaired (items d)"
proof (cases "load_try w (st\<lparr>n_load := Suc (n_load st)\<rparr>)")
  case (Returns d' s')
  with assms have "d' = d" by (simp add: load_def)
  with Returns show ?thesis by (auto dest: load_try_repaired)
next
  case (Throws e s')
  with assms show ?thesis
    by (auto simp: load_def getDefaultData_def new_Date_toISOString_def)
qed

lemma strict_eq_truthy: "strict_eq a b \<Longrightarrow> truthy a \<Longrightarrow> truthy b"
  by (cases a; cases b) auto

lemma map_of_spread_gen:
  "map_of (spread base v) k =
     (case own_prop v k of Some x \<Rightarrow> Some x | None \<Rightarrow> map_of base k)"
  by (simp add: spread_def own_prop_def map_of_fold_obj_put)

subsection \<open>updateItem on a present id\<close>

lemma member_updatedItem:
  "member (updatedItem old updates ident ut) (ascii ''id'') = ident"
  "member (updatedItem old updates ident ut) (ascii ''text'') =
     (if truthy ut then JStr (sanitizeItem ut) else JStr (item_text old))"
  "member (updatedItem old updates ident ut) (ascii ''completed'') =
     (case own_prop updates (ascii ''completed'') of
        None \<Rightarrow> JBool (completed old) | Some v \<Rightarrow> v)"
  "member (updatedItem old updates ident ut) (ascii ''createdAt'') =
     (case own_prop updates (ascii ''createdAt'') of
        None \<Rightarrow> createdAt old | Some v \<Rightarrow> v)"
  by (simp_all add: updatedItem_def map_of_obj_put map_of_spread_gen item_val_def
      own_prop_def split: option.splits del: sanitizeItem.simps)

subsection \<open>addItems\<close>

lemma addItems_loop_spec:
  "\<exists>new st'. addItems_loop w st texts ditems acc = Returns (ditems @ new, acc @ new) st'
     \<and> ticked st st' \<and> map item_text new = kept_texts texts
     \<and> list_all (\<lambda>it. \<not> completed it) new"
proof (induction texts arbitrary: st ditems acc)
  case Nil
  then show ?case by (simp add: kept_texts_def)
next
  case (Cons t texts)
  show ?case
  proof (cases "sanitizeItem t = []")
    case True
    with Cons.IH [of st ditems acc] show ?thesis
      by (simp add: kept_texts_def)
  next
    case False
    let ?it = "\<lparr>item_id = JStr (ascii ''todo-'' @ dec (now_ms w (clock st)) @ ascii ''-''
                    @ random36 w (Suc (clock st))),
                item_text = sanitizeItem t, completed = False,
                createdAt = JStr (now_iso w (Suc (Suc (clock st))))\<rparr>"
    let ?s = "st\<lparr>clock := Suc (Suc (Suc (clock st)))\<rparr>"
    obtain new st' where n:
      "addItems_loop w ?s texts (ditems @ [?it]) (acc @ [?it])
         = Returns ((ditems @ [?it]) @ new, (acc @ [?it]) @ new) st'"
      "ticked ?s st'" "map item_text new = kept_texts texts"
      "list_all (\<lambda>it. \<not> completed it) new"
      using Cons.IH [of ?s "ditems @ [?it]" "acc @ [?it]"] by blast
    have "ticked st ?s" by simp
    from this n(2) have "ticked st st'" by (rule ticked_trans)
    with False n(1,3,4) show ?thesis
      by (intro exI [of _ "?it # new"] exI [of _ st'])
         (simp add: generateUUID_def new_Date_toISOString_def kept_texts_def Let_def)
  qed
qed

lemma ticked_fields:
  "ticked st st' \<Longrightarrow>
   storage st' = storage st \<and> n_setItem st' = n_setItem st \<and> n_save st' = n_save st
   \<and> n_load st' = n_load st \<and> n_getItem st' = n_getItem st
   \<and> n_removeItem st' = n_removeItem st"
  by (cases st, cases st') (simp add: ticked_def)

lemma handle_counts:
  "\<exists>st'. handleStorageQuotaExceeded w st = Returns () st' \<and> n_save st' = n_save st
     \<and> n_load st' = Suc (n_load st)"
proof -
  obtain d st1 where l: "load w st = Returns d st1" "loaded st st1"
    using load_returns by blast
  then have s: "n_save st1 = n_save st" "n_load st1 = Suc (n_load st)"
    by (simp_all add: loaded_fields)
  with handle_cases [OF l(1)] show ?thesis
    by (simp split: option.splits)
qed

lemma save_no_quota:
  assumes "\<forall>t. setItem_error w (n_setItem st) STORAGE_KEY t \<noteq> Some QuotaExceededError"
  shows "n_load (state_of (save w st data)) = n_load st
       \<and> n_getItem (state_of (save w st data)) = n_getItem st
       \<and> n_setItem (state_of (save w st data)) \<le> Suc (n_setItem st)"
proof (cases "savable data")
  case False
  then show ?thesis by (simp add: save_invalid)
next
  case True
  show ?thesis
  proof (cases "setItem_error w (n_setItem st) STORAGE_KEY (save_text w st data)")
    case None
    with True show ?thesis by (simp add: save_accepted after_write_def)
  next
    case (Some e)
    with assms have "e \<noteq> QuotaExceededError" by metis
    with True Some show ?thesis by (simp add: save_refused after_write_def)
  qed
qed

text \<open>
  C5. \<open>addItems\<close> of an array sanitizes every element and skips the empty results; the
  items it returns carry the kept texts in order and are not completed. It calls
  \<open>save\<close> once when a text is kept and not at all otherwise; when none is kept it returns
  the empty sequence after one load, the store untouched. When the storage accepts the
  write, the batch has loaded once, read the storage once and written it once, and the
  store holds the loaded items followed by the new ones. (A write refused for quota makes
  \<open>save\<close> run its recovery, which loads once more.)
\<close>

theorem addItems_batch:
  assumes "load w st = Returns data st1"
  shows "\<exists>new.
      value_of (addItems w st (JArr texts)) = Some new
      \<and> map item_text new = kept_texts texts
      \<and> list_all (\<lambda>it. \<not> completed it) new
      \<and> n_save (state_of (addItems w st (JArr texts)))
           = (if kept_texts texts = [] then n_save st else Suc (n_save st))
      \<and> (kept_texts texts = [] \<longrightarrow>
            new = [] \<and> state_of (addItems w st (JArr texts)) = st1
            \<and> storage st1 = storage st \<and> n_setItem st1 = n_setItem st
            \<and> n_load st1 = Suc (n_load st) \<and> n_getItem st1 = Suc (n_getItem st))
      \<and> ((\<forall>t. setItem_error w (n_setItem st) STORAGE_KEY t \<noteq> Some QuotaExceededError) \<longrightarrow>
            n_load (state_of (addItems w st (JArr texts))) = Suc (n_load st)
            \<and> n_getItem (state_of (addItems w st (JArr texts))) = Suc (n_getItem st))
      \<and> (kept_texts texts \<noteq> [] \<and> (\<forall>t. setItem_error w (n_setItem st) STORAGE_KEY t = None) \<longrightarrow>
            stored_items (state_of (addItems w st (JArr texts)))
              = Some (map item_json (items data @ new))
            \<and> n_setItem (state_of (addItems w st (JArr texts))) = Suc (n_setItem st))"
proof -
  from load_returns [of w st] assms have l: "loaded st st1" and nk: "no_known_keys data"
    by auto
  obtain new st2 where n:
    "addItems_loop w st1 texts (items data) [] = Returns (items data @ new, [] @ new) st2"
    "ticked st1 st2" "map item_text new = kept_texts texts"
    "list_all (\<lambda>it. \<not> completed it) new"
    using addItems_loop_spec [of w st1 texts "items data" "[]"] by blast
  from l n(2) have l2: "loaded st st2" by (rule loaded_ticked)
  let ?d = "data\<lparr>items := items data @ new\<rparr>"
  from nk have nk': "no_known_keys ?d" by (simp add: no_known_keys_def)
  show ?thesis
  proof (cases "kept_texts texts = []")
    case True
    with n(3) have e: "new = []" by simp
    with n(1) True have "addItems_loop w st1 texts (items data) [] = Returns (items data, []) st2"
      by simp
    moreover from this True have "st2 = st1"
    proof (induction texts arbitrary: st2)
      case Nil
      then show ?case by simp
    next
      case (Cons t texts)
      from Cons.prems(2) have "sanitizeItem t = []" "kept_texts texts = []"
        by (auto simp: kept_texts_def split: if_splits)
      with Cons show ?case by simp
    qed
    ultimately have a: "addItems w st (JArr texts) = Returns [] st1"
      using assms by (simp add: addItems_def)
    with True e l show ?thesis
      by (simp add: loaded_fields)
  next
    case False
    with n(3) have ne: "new \<noteq> []" by auto
    with assms n(1)
    have a: "addItems w st (JArr texts) =
        and_then (save w st2 (doc_val ?d)) (\<lambda>ok st3. Returns new st3)"
      by (simp add: addItems_def Let_def)
    obtain ok st3 where s: "save w st2 (doc_val ?d) = Returns ok st3"
      "n_save st3 = Suc (n_save st2)"
      using save_returns by blast
    from l2 have f: "n_save st2 = n_save st" "n_load st2 = Suc (n_load st)"
      "n_getItem st2 = Suc (n_getItem st)" "n_setItem st2 = n_setItem st"
      by (simp_all add: loaded_fields)
    from a s have fin: "state_of (addItems w st (JArr texts)) = st3"
      "value_of (addItems w st (JArr texts)) = Some new"
      by simp_all
    have q: "n_load st3 = Suc (n_load st) \<and> n_getItem st3 = Suc (n_getItem st)"
      if "\<forall>t. setItem_error w (n_setItem st) STORAGE_KEY t \<noteq> Some QuotaExceededError"
      using save_no_quota [of w st2 "doc_val ?d"] that s(1) f by simp
    have w: "stored_items st3 = Some (map item_json (items data @ new))
        \<and> n_setItem st3 = Suc (n_setItem st)"
      if "\<forall>t. setItem_error w (n_setItem st) STORAGE_KEY t = None"
    proof -
      from that f have "setItem_error w (n_setItem st2) STORAGE_KEY (save_text w st2 (doc_val ?d)) = None"
        by simp
      then have "save w st2 (doc_val ?d) =
          Returns True ((after_write st2)\<lparr>storage := Some (save_text w st2 (doc_val ?d))\<rparr>)"
        by (simp add: save_accepted)
      with s(1) have "st3 = (after_write st2)\<lparr>storage := Some (save_text w st2 (doc_val ?d))\<rparr>"
        by simp
      with stored_items_saved [OF nk', where st = "after_write st2" and w = w and st' = st2] f
      show ?thesis by (simp add: after_write_def)
    qed
    from False fin n(3,4) s(2) f q w show ?thesis
      by auto
  qed
qed


lemma load_doc_a:
  assumes "storage st = Some (Json (doc_val doc_a))" and "\<not> getItem_throws w (n_getItem st)"
  shows "load w st =
     Returns doc_a (st\<lparr>n_load := Suc (n_load st), n_getItem := Suc (n_getItem st),
                       clock := Suc (clock st)\<rparr>)"
  using assms
  by (simp add: load_def load_try_def getItem_def JSON_parse_def getDefaultData_def
      new_Date_toISOString_def validateItem_def spread_document_def known_keys_def
      doc_a_def doc_val_def item_val_def item_a_def sanitize_milk Let_def
      del: sanitizeItem.simps)

lemma sanitize_a_b:
  "sanitizeItem (JStr (ascii ''a'')) = ascii ''a''"
  "sanitizeItem (JStr (ascii ''b'')) = ascii ''b''"
  "sanitizeItem (JStr [0x20, 0x20]) = []"
  by (simp_all add: ascii_def trim_def is_space_def slice0_def)

theorem addItems_batch_witness:
  "\<exists>new.
     value_of (addItems world0 state_a
        (JArr [JStr (ascii ''a''), JStr [], JStr [0x20, 0x20], JStr (ascii ''b'')])) = Some new
     \<and> map item_text new = [ascii ''a'', ascii ''b'']
     \<and> stored_items (state_of (addItems world0 state_a
          (JArr [JStr (ascii ''a''), JStr [], JStr [0x20, 0x20], JStr (ascii ''b'')])))
         = Some (map item_json (item_a # new))
     \<and> n_setItem (state_of (addItems world0 state_a
          (JArr [JStr (ascii ''a''), JStr [], JStr [0x20, 0x20], JStr (ascii ''b'')]))) = 1
     \<and> n_load (state_of (addItems world0 state_a
          (JArr [JStr (ascii ''a''), JStr [], JStr [0x20, 0x20], JStr (ascii ''b'')]))) = 1
     \<and> n_save (state_of (addItems world0 state_a
          (JArr [JStr (ascii ''a''), JStr [], JStr [0x20, 0x20], JStr (ascii ''b'')]))) = 1"
proof -
  let ?texts = "[JStr (ascii ''a''), JStr [], JStr [0x20, 0x20], JStr (ascii ''b'')]"
  have k: "kept_texts ?texts = [ascii ''a'', ascii ''b'']"
    by (simp add: kept_texts_def sanitize_a_b del: sanitizeItem.simps) simp
  have ok: "\<forall>t. setItem_error world0 (n_setItem state_a) STORAGE_KEY t = None"
    "\<forall>t. setItem_error world0 (n_setItem state_a) STORAGE_KEY t \<noteq> Some QuotaExceededError"
    by (simp_all add: world0_def)
  have z: "n_setItem state_a = 0" "n_load state_a = 0" "n_save state_a = 0" "items doc_a = [item_a]"
    by (simp_all add: state_a_def state0_def doc_a_def)
  from addItems_batch [OF load_state_a, of ?texts] ok
  show ?thesis
    unfolding k z by auto
qed

text \<open>
  A batch does not always load once: when the write of its \<open>save\<close> is refused for
  quota, the recovery loads again.
\<close>

theorem addItems_two_loads_counterexample:
  "kept_texts [JStr (ascii ''a'')] = [ascii ''a'']
   \<and> n_load state_a = 0
   \<and> n_load (state_of (addItems world_full state_a (JArr [JStr (ascii ''a'')]))) = 2"
proof -
  have g: "\<not> getItem_throws world_full n" for n
    by (simp add: world_full_def world0_def)
  have s: "storage state_a = Some (Json (doc_val doc_a))"
    by (simp add: state_a_def)
  have q: "setItem_error world_full n key t = Some QuotaExceededError" for n key t
    by (simp add: world_full_def)
  have "n_load (state_of (addItems world_full state_a (JArr [JStr (ascii ''a'')]))) = 2"
    by (simp add: addItems_def load_doc_a [OF s g] sanitize_a_b generateUUID_def
        new_Date_toISOString_def save_def save_try_def setItem_def q
        handleStorageQuotaExceeded_def load_doc_a g doc_val_def state_a_def state0_def
        doc_a_def [THEN arg_cong, of items] Let_def
        del: sanitizeItem.simps)
  then show ?thesis
    by (simp add: kept_texts_def sanitize_a_b state_a_def state0_def del: sanitizeItem.simps)
qed

subsection \<open>Sorting by creation time\<close>

lemma mset_insert_item: "mset (insert_item w x ys) = add_mset x (mset ys)"
  by (induction ys) auto

lemma mset_insertion: "mset (foldr (insert_item w) xs []) = mset xs"
  by (induction xs) (auto simp: mset_insert_item)

lemma mset_sort_items: "mset (sort_items w xs) = mset xs"
  by (simp add: sort_items_def mset_insertion Let_def)

lemma length_sort_items: "length (sort_items w xs) = length xs"
  using mset_sort_items [of w xs] by (metis size_mset)

lemma set_sort_items: "set (sort_items w xs) = set xs"
  using mset_sort_items [of w xs] by (metis set_mset_mset)

lemma is_time_created_ms: "is_time (new_Date w (createdAt x)) \<longleftrightarrow> created_ms w x \<noteq> None"
  by (cases "new_Date w (createdAt x)") (simp_all add: created_ms_def)

lemma sort_items_valid:
  "\<forall>x \<in> set xs. created_ms w x \<noteq> None \<Longrightarrow> sort_items w xs = foldr (insert_item w) xs []"
  by (simp add: sort_items_def list_all_iff is_time_created_ms)

lemma compare_created_Some:
  "created_ms w a = Some ta \<Longrightarrow> created_ms w b = Some tb \<Longrightarrow> compare_created w a b = tb - ta"
  by (simp add: compare_created_def created_ms_def split: date.splits)

lemma compare_created_valid:
  "created_ms w a \<noteq> None \<Longrightarrow> created_ms w b \<noteq> None \<Longrightarrow>
   compare_created w a b \<le> 0 \<longleftrightarrow> not_older w a b"
  by (auto simp: compare_created_Some not_older_def)

lemma not_older_total:
  "created_ms w a \<noteq> None \<Longrightarrow> created_ms w b \<noteq> None \<Longrightarrow>
   \<not> not_older w a b \<Longrightarrow> not_older w b a"
  by (auto simp: not_older_def)

lemma not_older_trans:
  "not_older w a b \<Longrightarrow> not_older w b c \<Longrightarrow> not_older w a c"
  by (auto simp: not_older_def split: option.splits)

lemma set_insert_item: "set (insert_item w x ys) = insert x (set ys)"
  using mset_insert_item [of w x ys] by (metis set_mset_mset set_mset_add_mset_insert)

lemma sorted_insert_item:
  assumes "created_ms w x \<noteq> None" and "\<forall>y \<in> set ys. created_ms w y \<noteq> None"
    and "sorted_wrt (not_older w) ys"
  shows "sorted_wrt (not_older w) (insert_item w x ys)"
  using assms
proof (induction ys)
  case Nil
  then show ?case by simp
next
  case (Cons y ys)
  show ?case
  proof (cases "compare_created w x y \<le> 0")
    case True
    with Cons.prems have xy: "not_older w x y"
      by (simp add: compare_created_valid)
    with Cons.prems(3) have "\<forall>z \<in> set ys. not_older w x z"
      by (auto intro: not_older_trans)
    with True xy Cons.prems(3) show ?thesis by simp
  next
    case False
    with Cons.prems have "\<not> not_older w x y"
      by (simp add: compare_created_valid)
    with Cons.prems have yx: "not_older w y x"
      by (intro not_older_total [of w x y]) simp_all
    from Cons have "sorted_wrt (not_older w) (insert_item w x ys)" by simp
    with False yx Cons.prems(3) show ?thesis
      by (auto simp: set_insert_item)
  qed
qed

lemma set_insertion: "set (foldr (insert_item w) xs []) = set xs"
  using mset_insertion [of w xs] by (metis set_mset_mset)

lemma sorted_insertion:
  "\<forall>x \<in> set xs. created_ms w x \<noteq> None \<Longrightarrow>
   sorted_wrt (not_older w) (foldr (insert_item w) xs [])"
proof (induction xs)
  case Nil
  then show ?case by simp
next
  case (Cons x xs)
  then have "sorted_wrt (not_older w) (foldr (insert_item w) xs [])" by simp
  with Cons.prems have "sorted_wrt (not_older w) (insert_item w x (foldr (insert_item w) xs []))"
    by (intro sorted_insert_item) (simp_all add: set_insertion)
  then show ?case by simp
qed

lemma sorted_sort_items:
  "\<forall>x \<in> set xs. created_ms w x \<noteq> None \<Longrightarrow> sorted_wrt (not_older w) (sort_items w xs)"
  by (simp add: sort_items_valid sorted_insertion)

text \<open>The insertion sort is stable: items of one creation time keep their order.\<close>

lemma filter_insert_item:
  "filter (\<lambda>it. created_ms w it = Some t) (insert_item w x ys) =
     (if created_ms w x = Some t then x # filter (\<lambda>it. created_ms w it = Some t) ys
      else filter (\<lambda>it. created_ms w it = Some t) ys)"
proof (induction ys)
  case Nil
  then show ?case by simp
next
  case (Cons y ys)
  have "compare_created w x y = 0" if "created_ms w x = Some t" "created_ms w y = Some t"
    using that by (simp add: compare_created_Some)
  with Cons show ?case by auto
qed

lemma filter_insertion:
  "filter (\<lambda>it. created_ms w it = Some t) (foldr (insert_item w) xs []) =
     filter (\<lambda>it. created_ms w it = Some t) xs"
  by (induction xs) (simp_all add: filter_insert_item)

lemma stable_sort_items:
  "\<forall>x \<in> set xs. created_ms w x \<noteq> None \<Longrightarrow>
   filter (\<lambda>it. created_ms w it = Some t) (sort_items w xs) =
     filter (\<lambda>it. created_ms w it = Some t) xs"
  by (simp add: sort_items_valid filter_insertion)

lemma sorted_wrt_take_drop:
  assumes "sorted_wrt P xs"
  shows "\<forall>k \<in> set (take n xs). \<forall>x \<in> set (drop n xs). P k x"
proof -
  from assms have "sorted_wrt P (take n xs @ drop n xs)" by simp
  then show ?thesis unfolding sorted_wrt_append by blast
qed

subsection \<open>The recovery's write\<close>

lemma stored_items_raw:
  "stored_items (st\<lparr>storage := Some (JSON_stringify (doc_val d))\<rparr>)
     = Some (map item_json (items d))"
proof -
  have "undefined_to_null (json_of (item_val it)) = item_json it" for it
    by (simp add: undefined_to_null_def item_json_def item_val_def)
  then show ?thesis
    by (simp add: stored_items_def JSON_stringify_def doc_val_def comp_def)
qed

lemma member_json_doc_val_key:
  assumes "no_known_keys d"
  shows "member (json_of (doc_val d)) (ascii ''lastUpdated'') = json_of (lastUpdated d)"
    and "member (json_of (doc_val d)) (ascii ''version'') = json_of (version d)"
proof -
  from assms have "map_of (filter (\<lambda>kv. snd kv \<noteq> JUndefined) (map (map_prod id json_of) (extras d))) k
      = None" if "k \<in> set known_keys" for k
    using that by (auto simp: no_known_keys_def list_all_iff map_of_eq_None_iff)
  then have e: "map_of (filter (\<lambda>kv. snd kv \<noteq> JUndefined) (map (map_prod id json_of) (extras d)))
      (ascii ''lastUpdated'') = None"
    "map_of (filter (\<lambda>kv. snd kv \<noteq> JUndefined) (map (map_prod id json_of) (extras d)))
      (ascii ''version'') = None"
    by (simp_all add: known_keys_def)
  from e show "member (json_of (doc_val d)) (ascii ''lastUpdated'') = json_of (lastUpdated d)"
    by (simp add: doc_val_def map_add_def)
  from e show "member (json_of (doc_val d)) (ascii ''version'') = json_of (version d)"
    by (simp add: doc_val_def map_add_def)
qed

subsection \<open>Valid items survive the store\<close>

lemma valid_stable: "valid_item it \<Longrightarrow> stable_item it"
  by (auto simp: valid_item_def stable_item_def split: jsval.splits)

lemma list_all_valid_stable: "list_all valid_item its \<Longrightarrow> list_all stable_item its"
  by (induction its) (simp_all add: valid_stable)

lemma truthy_not_undefined: "truthy v \<Longrightarrow> v \<noteq> JUndefined"
  by auto

lemma item_json_valid: "stable_item it \<Longrightarrow> item_json it = item_val it"
  by (auto simp: stable_item_def item_json_def item_val_def dest: truthy_not_undefined)

lemma validateItem_valid:
  "stable_item it \<Longrightarrow> validateItem w st (item_val it) = Returns (Some it) st"
proof (cases "item_text it = []")
  case True
  assume "stable_item it"
  with True show ?thesis
    by (simp add: stable_item_def validateItem_def item_val_def Let_def)
next
  case False
  assume "stable_item it"
  with False show ?thesis
    by (simp add: stable_item_def validateItem_def item_val_def Let_def
        del: sanitizeItem.simps)
qed

lemma map_validateItem_valid:
  "list_all stable_item its \<Longrightarrow>
   map_validateItem w st (map item_val its) = Returns (map Some its) st"
  by (induction its) (simp_all add: validateItem_valid)

lemma filter_Boolean_Some [simp]: "filter_Boolean (map Some its) = its"
  by (induction its) simp_all

lemma no_known_keys_spread:
  "no_known_keys ((spread_document dflt parsed)\<lparr>items := its\<rparr>)"
  by (simp add: no_known_keys_def spread_document_def Let_def list_all_iff)

lemma load_valid_items:
  assumes "storage st = Some (Json p)" and "truthy p"
    and "member p (ascii ''items'') = JArr (map item_val its)"
    and "list_all stable_item its"
    and "\<not> getItem_throws w (n_getItem st)"
  shows "\<exists>d st'. load w st = Returns d st' \<and> items d = its \<and> loaded st st'"
proof -
  obtain d st' where l: "load w st = Returns d st'" "loaded st st'"
    using load_returns by blast
  from assms have "items d = its"
    using l(1)
    by (auto simp: load_def load_try_def getItem_def JSON_parse_def getDefaultData_def
        new_Date_toISOString_def map_validateItem_valid)
  with l show ?thesis by blast
qed

lemma member_json_doc_val:
  "member (json_of (doc_val d)) (ascii ''items'') = JArr (map item_json (items d))"
proof -
  have "undefined_to_null (json_of (item_val it)) = item_json it" for it
    by (simp add: undefined_to_null_def item_json_def item_val_def)
  then show ?thesis
    by (simp add: doc_val_def comp_def)
qed

lemma map_item_json_valid:
  "list_all stable_item its \<Longrightarrow> map item_json its = map item_val its"
  by (induction its) (simp_all add: item_json_valid)

lemma truthy_json_doc_val [simp]: "truthy (json_of (doc_val d))"
  by (simp add: doc_val_def)

lemma truthy_json_dataToSave [simp]: "truthy (json_of (dataToSave v now))"
  by (simp add: dataToSave_def)

lemma importData_valid:
  assumes "truthy p" and "member p (ascii ''items'') = JArr (map item_val its)"
    and "list_all stable_item its"
    and "\<forall>t. setItem_error w (n_setItem st) STORAGE_KEY t = None"
  shows "\<exists>d st3. importData w st (Json p) =
            Returns True ((after_write st3)\<lparr>storage := Some (save_text w st3 (doc_val d))\<rparr>)
          \<and> ticked st st3 \<and> items d = its \<and> no_known_keys d"
proof -
  let ?s = "st\<lparr>clock := Suc (clock st)\<rparr>"
  obtain dflt where dflt: "getDefaultData w st = Returns dflt ?s"
    by (simp add: getDefaultData_def new_Date_toISOString_def)
  let ?d = "(spread_document dflt p)\<lparr>items := its\<rparr>"
  from assms(4) have "setItem_error w (n_setItem ?s) STORAGE_KEY (save_text w ?s (doc_val ?d)) = None"
    by simp
  then have "save w ?s (doc_val ?d) =
      Returns True ((after_write ?s)\<lparr>storage := Some (save_text w ?s (doc_val ?d))\<rparr>)"
    by (simp add: save_accepted)
  with assms(1-3) dflt have "importData w st (Json p) =
      Returns True ((after_write ?s)\<lparr>storage := Some (save_text w ?s (doc_val ?d))\<rparr>)"
    by (simp add: importData_def JSON_parse_def map_validateItem_valid Let_def)
  moreover have "ticked st ?s" "items ?d = its" "no_known_keys ?d"
    by (simp_all add: no_known_keys_spread)
  ultimately show ?thesis by blast
qed

text \<open>
  C6. Let the store hold a document whose items are valid, and let the storage answer the
  read. Then \<open>exportData\<close> returns a text, and \<open>importData\<close> of that text into any
  store whose storage accepts the write (a fresh one in particular) succeeds; and what
  \<open>load\<close> then reads from that store has the same items: the same id, text,
  \<open>completed\<close> and \<open>createdAt\<close>, in the same order.
\<close>

theorem export_import_roundtrip:
  assumes "storage stA = Some (JSON_stringify (doc_val d))"
    and "list_all valid_item (items d)"
    and "\<not> getItem_throws w (n_getItem stA)"
    and "\<forall>t. setItem_error w (n_setItem stB) STORAGE_KEY t = None"
    and "\<not> getItem_throws w (n_getItem stB)"
  shows "\<exists>exported stA' stB' d' stB''.
           exportData w stA = Returns exported stA'
           \<and> importData w stB exported = Returns True stB'
           \<and> load w stB' = Returns d' stB''
           \<and> items d' = items d"
proof -
  let ?its = "items d"
  from assms(2) have st: "list_all stable_item ?its"
    by (rule list_all_valid_stable)
  have m: "member (json_of (doc_val d)) (ascii ''items'') = JArr (map item_val ?its)"
    by (simp add: member_json_doc_val map_item_json_valid [OF st])
  from assms(1) have sA: "storage stA = Some (Json (json_of (doc_val d)))"
    by (simp add: JSON_stringify_def)
  obtain dA stA' where lA: "load w stA = Returns dA stA'" "items dA = ?its"
    using load_valid_items [OF sA truthy_json_doc_val m st assms(3)] by blast
  then have ex: "exportData w stA = Returns (Json (json_of (doc_val dA))) stA'"
    by (simp add: exportData_def JSON_stringify_def)
  from lA(2) have mA: "member (json_of (doc_val dA)) (ascii ''items'') = JArr (map item_val ?its)"
    by (simp add: member_json_doc_val map_item_json_valid [OF st])
  obtain dI st3 where im:
    "importData w stB (Json (json_of (doc_val dA))) =
       Returns True ((after_write st3)\<lparr>storage := Some (save_text w st3 (doc_val dI))\<rparr>)"
    "ticked stB st3" "items dI = ?its" "no_known_keys dI"
    using importData_valid [OF truthy_json_doc_val mA st assms(4)] by blast
  let ?stB' = "(after_write st3)\<lparr>storage := Some (save_text w st3 (doc_val dI))\<rparr>"
  have sB: "storage ?stB' = Some (Json (json_of (dataToSave (doc_val dI) (JStr (now_iso w (clock st3))))))"
    by (simp add: save_text_def JSON_stringify_def)
  from im(3,4)
  have mB: "member (json_of (dataToSave (doc_val dI) (JStr (now_iso w (clock st3))))) (ascii ''items'')
      = JArr (map item_val ?its)"
    by (simp add: member_dataToSave_items map_item_json_valid [OF st])
  from im(2) assms(5) have g: "\<not> getItem_throws w (n_getItem ?stB')"
    by (simp add: after_write_def ticked_fields)
  obtain d' stB'' where lB: "load w ?stB' = Returns d' stB''" "items d' = ?its"
    using load_valid_items [OF sB truthy_json_dataToSave mB st g] by blast
  from ex im(1) lB show ?thesis by blast
qed

theorem export_import_roundtrip_witness:
  "\<exists>exported stA' stB' d' stB''.
     exportData world0 state_a = Returns exported stA'
     \<and> importData world0 state0 exported = Returns True stB'
     \<and> load world0 stB' = Returns d' stB''
     \<and> items d' = [item_a]"
proof -
  have v: "list_all valid_item (items doc_a)"
    by (simp add: valid_item_def doc_a_def item_a_def sanitize_milk del: sanitizeItem.simps)
  have s: "storage state_a = Some (JSON_stringify (doc_val doc_a))"
    by (simp add: state_a_def JSON_stringify_def doc_val_def doc_a_def item_val_def item_a_def
        undefined_to_null_def)
  have g: "\<not> getItem_throws world0 (n_getItem state_a)" "\<not> getItem_throws world0 (n_getItem state0)"
    "\<forall>t. setItem_error world0 (n_setItem state0) STORAGE_KEY t = None"
    by (simp_all add: world0_def)
  from export_import_roundtrip [OF s v g(1) g(3) g(2)] show ?thesis
    by (simp add: doc_a_def)
qed

subsection \<open>save refused for quota\<close>

lemma member_doc_val_items [simp]:
  "member (doc_val d) (ascii ''items'') = JArr (map item_val (items d))"
  by (simp add: doc_val_def)

lemma truthy_doc_val [simp]: "truthy (doc_val d)"
  by (simp add: doc_val_def)

lemma no_known_keys_pruned: "no_known_keys d \<Longrightarrow> no_known_keys (pruned w d)"
  by (simp add: no_known_keys_def pruned_def)

lemma stored_member_raw:
  assumes "no_known_keys d"
  shows "stored_member (st\<lparr>storage := Some (JSON_stringify (doc_val d))\<rparr>) (ascii ''lastUpdated'')
           = Some (json_of (lastUpdated d))"
    and "stored_member (st\<lparr>storage := Some (JSON_stringify (doc_val d))\<rparr>) (ascii ''version'')
           = Some (json_of (version d))"
  using member_json_doc_val_key [OF assms]
  by (simp_all add: stored_member_def JSON_stringify_def)

text \<open>
  C7. Let a \<open>save\<close> be refused for quota, and let the document that the recovery loads
  hold more than 100 items. Then \<open>save\<close> returns \<open>false\<close> and is not called again.
  When every date can be built and the storage accepts the recovery's write, the store
  then holds exactly 50 of the loaded items, the first 50 in the order in which the sort
  leaves them, and the document is written as it was loaded: \<open>lastUpdated\<close> and
  \<open>version\<close> are not stamped. When a date cannot be built, or the storage refuses that
  write too, the store is as it was. The sort rearranges the items; when every
  \<open>createdAt\<close> is a valid date it puts later dates first and keeps the stored order among
  equal dates, so that no item it drops was created later than an item it keeps.
\<close>

theorem quota_recovery:
  assumes "savable v"
    and "setItem_error w (n_setItem st) STORAGE_KEY (save_text w st v) = Some QuotaExceededError"
    and "load w (after_write st) = Returns data st1"
    and "length (items data) > 100"
  shows "\<exists>st'. save w st v = Returns False st' \<and> n_save st' = Suc (n_save st)
     \<and> ((\<forall>it \<in> set (items data). new_Date w (createdAt it) \<noteq> Conversion_throws)
          \<and> (\<forall>t. setItem_error w (Suc (n_setItem st)) STORAGE_KEY t = None) \<longrightarrow>
          stored_items st' = Some (map item_json (take 50 (sort_items w (items data))))
          \<and> stored_member st' (ascii ''lastUpdated'') = Some (json_of (lastUpdated data))
          \<and> stored_member st' (ascii ''version'') = Some (json_of (version data)))
     \<and> ((\<exists>it \<in> set (items data). new_Date w (createdAt it) = Conversion_throws)
          \<or> (\<forall>t. setItem_error w (Suc (n_setItem st)) STORAGE_KEY t \<noteq> None) \<longrightarrow>
          storage st' = storage st)
     \<and> length (take 50 (sort_items w (items data))) = 50
     \<and> mset (sort_items w (items data)) = mset (items data)
     \<and> ((\<forall>it \<in> set (items data). created_ms w it \<noteq> None) \<longrightarrow>
          sorted_wrt (not_older w) (sort_items w (items data))
          \<and> (\<forall>t. filter (\<lambda>it. created_ms w it = Some t) (sort_items w (items data))
                 = filter (\<lambda>it. created_ms w it = Some t) (items data))
          \<and> (\<forall>k \<in> set (take 50 (sort_items w (items data))).
                \<forall>x \<in> set (drop 50 (sort_items w (items data))). not_older w k x))"
proof -
  let ?t = "JSON_stringify (doc_val (pruned w data))"
  let ?e = "setItem_error w (n_setItem st1) STORAGE_KEY ?t"
  let ?throws = "list_ex (\<lambda>x. new_Date w (createdAt x) = Conversion_throws) (items data)"
  from load_returns [of w "after_write st"] assms(3)
  have l: "loaded (after_write st) st1" and nk: "no_known_keys data"
    by auto
  then have f: "storage st1 = storage st" "n_save st1 = Suc (n_save st)"
    "n_setItem st1 = Suc (n_setItem st)"
    by (simp_all add: loaded_fields after_write_def)
  note s = save_quota [OF assms(1,2)]
  note h = handle_cases [OF assms(3)]
  have general: "length (take 50 (sort_items w (items data))) = 50
     \<and> mset (sort_items w (items data)) = mset (items data)
     \<and> ((\<forall>it \<in> set (items data). created_ms w it \<noteq> None) \<longrightarrow>
          sorted_wrt (not_older w) (sort_items w (items data))
          \<and> (\<forall>t. filter (\<lambda>it. created_ms w it = Some t) (sort_items w (items data))
                 = filter (\<lambda>it. created_ms w it = Some t) (items data))
          \<and> (\<forall>k \<in> set (take 50 (sort_items w (items data))).
                \<forall>x \<in> set (drop 50 (sort_items w (items data))). not_older w k x))"
    using assms(4) sorted_sort_items [of "items data" w] stable_sort_items [of "items data" w]
      sorted_wrt_take_drop [of "not_older w" "sort_items w (items data)" 50]
    by (simp add: length_sort_items mset_sort_items)
  have "\<exists>st'. save w st v = Returns False st' \<and> n_save st' = Suc (n_save st)
     \<and> ((\<forall>it \<in> set (items data). new_Date w (createdAt it) \<noteq> Conversion_throws)
          \<and> (\<forall>t. setItem_error w (Suc (n_setItem st)) STORAGE_KEY t = None) \<longrightarrow>
          stored_items st' = Some (map item_json (take 50 (sort_items w (items data))))
          \<and> stored_member st' (ascii ''lastUpdated'') = Some (json_of (lastUpdated data))
          \<and> stored_member st' (ascii ''version'') = Some (json_of (version data)))
     \<and> ((\<exists>it \<in> set (items data). new_Date w (createdAt it) = Conversion_throws)
          \<or> (\<forall>t. setItem_error w (Suc (n_setItem st)) STORAGE_KEY t \<noteq> None) \<longrightarrow>
          storage st' = storage st)"
  proof (cases ?throws)
    case True
    with s h have "save w st v = Returns False st1" by simp
    with True f show ?thesis by (auto simp: list_ex_iff)
  next
    case False
    show ?thesis
    proof (cases ?e)
      case None
      let ?st' = "st1\<lparr>n_setItem := Suc (n_setItem st1), storage := Some ?t\<rparr>"
      from s h False None assms(4) have "save w st v = Returns False ?st'" by simp
      moreover have "stored_items ?st' = Some (map item_json (take 50 (sort_items w (items data))))"
        using stored_items_raw [where st = "st1\<lparr>n_setItem := Suc (n_setItem st1)\<rparr>"
            and d = "pruned w data"]
        by (simp add: pruned_def)
      moreover have "stored_member ?st' (ascii ''lastUpdated'') = Some (json_of (lastUpdated data))"
        "stored_member ?st' (ascii ''version'') = Some (json_of (version data))"
        using stored_member_raw [OF no_known_keys_pruned [OF nk],
            where st = "st1\<lparr>n_setItem := Suc (n_setItem st1)\<rparr>"]
        by (simp_all add: pruned_def)
      moreover have "n_save ?st' = Suc (n_save st)" using f by simp
      moreover have "\<not> ((\<exists>it \<in> set (items data). new_Date w (createdAt it) = Conversion_throws)
          \<or> (\<forall>t. setItem_error w (Suc (n_setItem st)) STORAGE_KEY t \<noteq> None))"
        using False None f by (auto simp: list_ex_iff)
      ultimately show ?thesis by blast
    next
      case (Some e)
      let ?st' = "st1\<lparr>n_setItem := Suc (n_setItem st1)\<rparr>"
      from s h False Some assms(4) have "save w st v = Returns False ?st'" by simp
      moreover have "n_save ?st' = Suc (n_save st)" "storage ?st' = storage st"
        using f by simp_all
      moreover have "\<not> (\<forall>t. setItem_error w (Suc (n_setItem st)) STORAGE_KEY t = None)"
        using Some f by auto
      ultimately show ?thesis by blast
    qed
  qed
  with general show ?thesis by blast
qed

lemma dec_not_Nil [simp]: "dec n \<noteq> []"
  by (subst dec.simps) simp

lemma stable_item_n: "stable_item (item_n n)"
  by (simp add: stable_item_def item_n_def sanitize_milk del: sanitizeItem.simps)

lemma created_item_n: "n < 120 \<Longrightarrow> created_ms world_once (item_n n) = Some (int (Suc n))"
proof -
  assume "n < 120"
  then have "(of_nat (Suc n) :: rat) \<le> of_nat 8640000000000000"
    unfolding of_nat_le_iff by simp
  then have "\<bar>of_nat (Suc n) :: rat\<bar> \<le> 8640000000000000" by simp
  then show ?thesis
    by (simp add: created_ms_def world_once_def world0_def item_n_def del: of_nat_Suc)
qed

text \<open>
  Items that come in the order of their creation are turned round by the sort.
\<close>

lemma insert_item_last:
  "\<forall>y \<in> set ys. 0 < compare_created w x y \<Longrightarrow> insert_item w x ys = ys @ [x]"
  by (induction ys) auto

lemma insertion_rev:
  "sorted_wrt (\<lambda>a b. 0 < compare_created w a b) xs \<Longrightarrow> foldr (insert_item w) xs [] = rev xs"
  by (induction xs) (simp_all add: insert_item_last)

lemma sort_items_120: "sort_items world_once (map item_n [0..<120]) = map item_n (rev [0..<120])"
proof -
  have v: "\<forall>x \<in> set (map item_n [0..<120]). created_ms world_once x \<noteq> None"
    by (auto simp: created_item_n)
  have "sorted_wrt (\<lambda>a b. 0 < compare_created world_once a b) (map item_n [0..<120])"
    unfolding sorted_wrt_map
    by (rule sorted_wrt_mono_rel [of _ "(<)"])
       (auto simp: compare_created_Some [OF created_item_n created_item_n] simp del: upt_Suc)
  then have "foldr (insert_item world_once) (map item_n [0..<120]) [] = rev (map item_n [0..<120])"
    by (rule insertion_rev)
  with v show ?thesis
    by (simp add: sort_items_valid rev_map del: upt_Suc)
qed

lemma load_doc_120:
  "\<exists>data st1. load world_once (after_write state_120) = Returns data st1
     \<and> items data = map item_n [0..<120]"
proof -
  have st: "storage (after_write state_120) = Some (Json (doc_val doc_120))"
    by (simp add: after_write_def state_120_def)
  have m: "member (doc_val doc_120) (ascii ''items'') = JArr (map item_val (map item_n [0..<120]))"
    by (simp add: doc_120_def)
  have stable: "list_all stable_item (map item_n [0..<120])"
    by (simp add: list_all_iff stable_item_n)
  have g: "\<not> getItem_throws world_once (n_getItem (after_write state_120))"
    by (simp add: world_once_def world0_def)
  from load_valid_items [OF st truthy_doc_val m stable g] show ?thesis by blast
qed

theorem quota_recovery_witness:
  "\<exists>st'. save world_once state_120 (doc_val doc_120) = Returns False st'
     \<and> stored_items st' = Some (map item_json (map item_n (rev [70..<120])))
     \<and> n_save st' = 1"
proof -
  have sv: "savable (doc_val doc_120)" by simp
  have q: "setItem_error world_once (n_setItem state_120) STORAGE_KEY
      (save_text world_once state_120 (doc_val doc_120)) = Some QuotaExceededError"
    by (simp add: world_once_def state_120_def state0_def)
  obtain data st1 where l: "load world_once (after_write state_120) = Returns data st1"
    "items data = map item_n [0..<120]"
    using load_doc_120 by blast
  from l(2) have len: "length (items data) > 100" by simp
  have ok: "\<forall>t. setItem_error world_once (Suc (n_setItem state_120)) STORAGE_KEY t = None"
    by (simp add: world_once_def)
  have "new_Date world_once (createdAt (item_n n)) \<noteq> Conversion_throws" for n
    by (simp add: world_once_def world0_def item_n_def)
  with l(2) have nt: "\<forall>it \<in> set (items data). new_Date world_once (createdAt it) \<noteq> Conversion_throws"
    by auto
  have k: "take 50 (sort_items world_once (items data)) = map item_n (rev [70..<120])"
    unfolding l(2) sort_items_120 by (simp add: take_map take_rev drop_map del: upt_Suc)
  have z: "n_save state_120 = 0" by (simp add: state_120_def state0_def)
  from quota_recovery [OF sv q l(1) len] ok nt show ?thesis
    unfolding k z by auto
qed

lemma save_quota_recovers:
  assumes "savable v"
    and "setItem_error w (n_setItem st) STORAGE_KEY (save_text w st v) = Some QuotaExceededError"
    and "load w (after_write st) = Returns data st1"
    and "length (items data) > 100"
    and "\<not> list_ex (\<lambda>x. new_Date w (createdAt x) = Conversion_throws) (items data)"
    and "setItem_error w (n_setItem st1) STORAGE_KEY (JSON_stringify (doc_val (pruned w data))) = None"
  shows "save w st v =
     Returns False (st1\<lparr>n_setItem := Suc (n_setItem st1),
                        storage := Some (JSON_stringify (doc_val (pruned w data)))\<rparr>)"
  using save_quota [OF assms(1,2)] handle_cases [OF assms(3)] assms(4-6) by simp

lemma handle_all_refused:
  assumes "\<forall>n key t. setItem_error w n key t \<noteq> None"
  shows "storage (state_of (handleStorageQuotaExceeded w st)) = storage st"
proof -
  obtain d st1 where l: "load w st = Returns d st1" "loaded st st1"
    using load_returns by blast
  then have s: "storage st1 = storage st"
    by (simp add: loaded_fields)
  from assms obtain e where "setItem_error w (n_setItem st1) STORAGE_KEY
      (JSON_stringify (doc_val (pruned w d))) = Some e"
    by (metis option.exhaust)
  with handle_cases [OF l(1)] s show ?thesis by simp
qed

lemma save_all_refused:
  assumes "\<forall>n key t. setItem_error w n key t \<noteq> None"
  shows "value_of (save w st v) = Some False \<and> storage (state_of (save w st v)) = storage st"
proof (cases "savable v")
  case False
  then show ?thesis by (simp add: save_invalid)
next
  case True
  from assms obtain e where e: "setItem_error w (n_setItem st) STORAGE_KEY (save_text w st v) = Some e"
    by (metis option.exhaust)
  show ?thesis
  proof (cases "e = QuotaExceededError")
    case False
    with True e show ?thesis by (simp add: save_refused after_write_def)
  next
    case q: True
    obtain st' where h: "handleStorageQuotaExceeded w (after_write st) = Returns () st'"
      using handle_returns by blast
    with handle_all_refused [OF assms, of "after_write st"]
    have "storage st' = storage st" by (simp add: after_write_def)
    with True e q h show ?thesis by (simp add: save_quota)
  qed
qed

lemma stable_mixed: "list_all stable_item (item_a # item_undated # map item_late [0..<99])"
  by (simp add: list_all_iff stable_item_def item_a_def item_undated_def item_late_def
      sanitize_milk del: sanitizeItem.simps upt_Suc)

lemma load_doc_mixed:
  "\<exists>data st1. load world_once (after_write state_mixed) = Returns data st1
     \<and> items data = item_a # item_undated # map item_late [0..<99]
     \<and> n_setItem st1 = 1"
proof -
  have st: "storage (after_write state_mixed) = Some (Json (doc_val doc_mixed))"
    by (simp add: after_write_def state_mixed_def)
  have m: "member (doc_val doc_mixed) (ascii ''items'')
      = JArr (map item_val (item_a # item_undated # map item_late [0..<99]))"
    by (simp add: doc_mixed_def del: upt_Suc)
  have g: "\<not> getItem_throws world_once (n_getItem (after_write state_mixed))"
    by (simp add: world_once_def world0_def)
  obtain d st' where "load world_once (after_write state_mixed) = Returns d st'"
    "items d = item_a # item_undated # map item_late [0..<99]"
    "loaded (after_write state_mixed) st'"
    using load_valid_items [OF st truthy_doc_val m stable_mixed g] by blast
  moreover from this(3) have "n_setItem st' = 1"
    by (simp add: loaded_fields after_write_def state_mixed_def state0_def)
  ultimately show ?thesis by blast
qed

lemma sort_items_mixed:
  "sort_items world_once (item_a # item_undated # map item_late [0..<99])
     = item_a # item_undated # map item_late [0..<99]"
  by (simp add: sort_items_def world_once_def world0_def item_undated_def del: upt_Suc)

lemma recovery_refused:
  "map_option length (stored_items state_101) = Some 101"
  "setItem_error world_full (n_setItem state_101) STORAGE_KEY
     (save_text world_full state_101 (doc_val doc_a)) = Some QuotaExceededError"
  "value_of (save world_full state_101 (doc_val doc_a)) = Some False"
  "map_option length (stored_items (state_of (save world_full state_101 (doc_val doc_a))))
     = Some 101"
proof -
  have r: "\<forall>n key t. setItem_error world_full n key t \<noteq> None"
    by (simp add: world_full_def)
  show i: "map_option length (stored_items state_101) = Some 101"
    by (simp add: stored_items_def state_101_def)
  from save_all_refused [OF r, of state_101 "doc_val doc_a"]
  show "value_of (save world_full state_101 (doc_val doc_a)) = Some False"
    and "map_option length (stored_items (state_of (save world_full state_101 (doc_val doc_a))))
      = Some 101"
    using i by (simp_all add: stored_items_def)
  show "setItem_error world_full (n_setItem state_101) STORAGE_KEY
      (save_text world_full state_101 (doc_val doc_a)) = Some QuotaExceededError"
    by (simp add: world_full_def)
qed

lemma recovery_unsorted:
  "stored_items state_mixed
     = Some (map item_json (item_a # item_undated # map item_late [0..<99]))"
  "setItem_error world_once (n_setItem state_mixed) STORAGE_KEY
     (save_text world_once state_mixed (doc_val doc_mixed)) = Some QuotaExceededError"
  "value_of (save world_once state_mixed (doc_val doc_mixed)) = Some False"
  "stored_items (state_of (save world_once state_mixed (doc_val doc_mixed)))
     = Some (map item_json (item_a # item_undated # map item_late [0..<48]))"
proof -
  let ?its = "item_a # item_undated # map item_late [0..<99]"
  show "stored_items state_mixed = Some (map item_json ?its)"
    using stored_items_raw [where st = state0 and d = doc_mixed]
      map_item_json_valid [OF stable_mixed]
    by (simp add: state_mixed_def doc_mixed_def stored_items_def del: upt_Suc)
  show q: "setItem_error world_once (n_setItem state_mixed) STORAGE_KEY
      (save_text world_once state_mixed (doc_val doc_mixed)) = Some QuotaExceededError"
    by (simp add: world_once_def state_mixed_def state0_def)
  obtain data st1 where l: "load world_once (after_write state_mixed) = Returns data st1"
    "items data = ?its" "n_setItem st1 = 1"
    using load_doc_mixed by blast
  have nt: "\<not> list_ex (\<lambda>x. new_Date world_once (createdAt x) = Conversion_throws) (items data)"
    unfolding l(2)
    by (simp add: list_ex_iff world_once_def world0_def item_a_def item_undated_def item_late_def
        del: upt_Suc)
  have ok: "setItem_error world_once (n_setItem st1) STORAGE_KEY
      (JSON_stringify (doc_val (pruned world_once data))) = None"
    using l(3) by (simp add: world_once_def)
  have k: "items (pruned world_once data) = item_a # item_undated # map item_late [0..<48]"
    unfolding pruned_def using l(2) sort_items_mixed by (simp add: take_map del: upt_Suc)
  from l(2) have len: "length (items data) > 100" by simp
  note s = save_quota_recovers [OF savable_doc_val q l(1) len nt ok]
  show "value_of (save world_once state_mixed (doc_val doc_mixed)) = Some False"
    unfolding s by simp
  show "stored_items (state_of (save world_once state_mixed (doc_val doc_mixed)))
      = Some (map item_json (item_a # item_undated # map item_late [0..<48]))"
    unfolding s
    using stored_items_raw [where st = "st1\<lparr>n_setItem := Suc (n_setItem st1)\<rparr>"
        and d = "pruned world_once data"] k
    by simp
qed

lemma stable_opaque: "list_all stable_item (item_opaque # map item_late [0..<100])"
  by (simp add: list_all_iff stable_item_def item_opaque_def item_late_def
      sanitize_milk del: sanitizeItem.simps upt_Suc)

lemma recovery_throws:
  "map_option length (stored_items state_opaque) = Some 101"
  "setItem_error world_once (n_setItem state_opaque) STORAGE_KEY
     (save_text world_once state_opaque (doc_val doc_opaque)) = Some QuotaExceededError"
  "value_of (save world_once state_opaque (doc_val doc_opaque)) = Some False"
  "map_option length (stored_items (state_of (save world_once state_opaque (doc_val doc_opaque))))
     = Some 101"
proof -
  let ?its = "item_opaque # map item_late [0..<100]"
  show i: "map_option length (stored_items state_opaque) = Some 101"
    by (simp add: stored_items_def state_opaque_def doc_opaque_def)
  show q: "setItem_error world_once (n_setItem state_opaque) STORAGE_KEY
      (save_text world_once state_opaque (doc_val doc_opaque)) = Some QuotaExceededError"
    by (simp add: world_once_def state_opaque_def state0_def)
  have st: "storage (after_write state_opaque) = Some (Json (doc_val doc_opaque))"
    by (simp add: after_write_def state_opaque_def)
  have m: "member (doc_val doc_opaque) (ascii ''items'') = JArr (map item_val ?its)"
    by (simp add: doc_opaque_def del: upt_Suc)
  have g: "\<not> getItem_throws world_once (n_getItem (after_write state_opaque))"
    by (simp add: world_once_def world0_def)
  obtain data st1 where l: "load world_once (after_write state_opaque) = Returns data st1"
    "items data = ?its" "loaded (after_write state_opaque) st1"
    using load_valid_items [OF st truthy_doc_val m stable_opaque g] by blast
  have t: "list_ex (\<lambda>x. new_Date world_once (createdAt x) = Conversion_throws) (items data)"
    unfolding l(2) by (simp add: world_once_def world0_def item_opaque_def del: upt_Suc)
  from l(2) have len: "length (items data) > 100" by simp
  from save_quota [OF savable_doc_val q] handle_cases [OF l(1)] t
  have s: "save world_once state_opaque (doc_val doc_opaque) = Returns False st1"
    by simp
  then show "value_of (save world_once state_opaque (doc_val doc_opaque)) = Some False"
    by simp
  from l(3) have "storage st1 = storage state_opaque"
    by (simp add: loaded_fields after_write_def)
  with i s
  show "map_option length (stored_items (state_of (save world_once state_opaque (doc_val doc_opaque))))
      = Some 101"
    by (simp add: stored_items_def)
qed

text \<open>
  The recovery does not always leave at most 50 items. When the storage refuses its
  write as well, the 101 items of the first store all remain. So do the 101 items of the
  third store, although the write would be accepted: the date of its first item cannot
  be built, the comparator throws and the recovery gives up. And the 50 items that the
  recovery leaves are not always the most recent ones: in the second store every item
  compares as not before the one in front of it, as the item without a date compares as
  equal to its neighbours, and an engine that takes such a list for sorted (V8 finds it
  to be one run) keeps the first 50, the oldest item among them, and drops items of a
  later date.
\<close>

theorem quota_recovery_counterexample:
  "map_option length (stored_items state_101) = Some 101
   \<and> setItem_error world_full (n_setItem state_101) STORAGE_KEY
        (save_text world_full state_101 (doc_val doc_a)) = Some QuotaExceededError
   \<and> value_of (save world_full state_101 (doc_val doc_a)) = Some False
   \<and> map_option length (stored_items (state_of (save world_full state_101 (doc_val doc_a))))
       = Some 101
   \<and> stored_items state_mixed
       = Some (map item_json (item_a # item_undated # map item_late [0..<99]))
   \<and> setItem_error world_once (n_setItem state_mixed) STORAGE_KEY
        (save_text world_once state_mixed (doc_val doc_mixed)) = Some QuotaExceededError
   \<and> value_of (save world_once state_mixed (doc_val doc_mixed)) = Some False
   \<and> stored_items (state_of (save world_once state_mixed (doc_val doc_mixed)))
       = Some (map item_json (item_a # item_undated # map item_late [0..<48]))
   \<and> created_ms world_once item_a = Some 1703980800000
   \<and> created_ms world_once item_undated = None
   \<and> created_ms world_once (item_late 48) = Some 1704067200000
   \<and> map_option length (stored_items state_opaque) = Some 101
   \<and> setItem_error world_once (n_setItem state_opaque) STORAGE_KEY
        (save_text world_once state_opaque (doc_val doc_opaque)) = Some QuotaExceededError
   \<and> new_Date world_once (createdAt item_opaque) = Conversion_throws
   \<and> value_of (save world_once state_opaque (doc_val doc_opaque)) = Some False
   \<and> map_option length (stored_items (state_of (save world_once state_opaque (doc_val doc_opaque))))
       = Some 101"
proof -
  have g: "created_ms world_once item_a = Some 1703980800000"
    "created_ms world_once item_undated = None"
    "created_ms world_once (item_late 48) = Some 1704067200000"
    "new_Date world_once (createdAt item_opaque) = Conversion_throws"
    by (simp_all add: created_ms_def world_once_def world0_def item_a_def item_undated_def
        item_late_def item_opaque_def)
  from recovery_refused recovery_unsorted recovery_throws g show ?thesis
    by (intro conjI)
qed

subsection \<open>The operations that always return\<close>

lemma returns_and_then_save [simp]:
  "returns (and_then (save w st v) (\<lambda>ok st'. Returns (f ok) st'))"
  using save_returns [of w st v] by auto

lemma returns_save [simp]: "returns (save w st v)"
  using save_returns [of w st v] by auto

lemma returns_load [simp]: "returns (load w st)"
  using load_returns [of w st] by auto

lemma returns_validateItem [simp]: "returns (validateItem w st raw)"
  using validateItem_ticks [of w st raw] by auto

lemma returns_handle [simp]: "returns (handleStorageQuotaExceeded w st)"
  using handle_returns [of w st] by auto

lemma returns_addItem: "returns (addItem w st v)"
proof -
  obtain d st1 where "load w st = Returns d st1"
    using load_returns by blast
  then show ?thesis
    by (simp add: addItem_def generateUUID_def new_Date_toISOString_def Let_def)
qed

lemma returns_addItems: "returns (addItems w st v)"
proof -
  obtain d st1 where l: "load w st = Returns d st1"
    using load_returns by blast
  obtain r st2 where "addItems_loop w st1 (elements v) (items d) [] = Returns r st2"
    using addItems_loop_spec [of w st1 "elements v" "items d" "[]"] by blast
  with l show ?thesis
    by (simp add: addItems_def Let_def)
qed

lemma returns_deleteItem: "returns (deleteItem w st ident)"
proof -
  obtain d st1 where "load w st = Returns d st1"
    using load_returns by blast
  then show ?thesis
    by (simp add: deleteItem_def Let_def)
qed

lemma returns_clearAll: "returns (clearAll w st)"
  by (simp add: clearAll_def getDefaultData_def new_Date_toISOString_def)

lemma returns_exportData: "returns (exportData w st)"
proof -
  obtain d st1 where "load w st = Returns d st1"
    using load_returns by blast
  then show ?thesis
    by (simp add: exportData_def)
qed

lemma returns_importData: "returns (importData w st jsonString)"
proof -
  have "returns (try_catch m (\<lambda>error st'. Returns False st'))" for m :: "bool result"
    by (cases m) simp_all
  then show ?thesis
    by (simp add: importData_def)
qed

lemma returns_isStorageAvailable: "returns (isStorageAvailable w st)"
proof -
  have "returns (try_catch m (\<lambda>error st'. Returns False st'))" for m :: "bool result"
    by (cases m) simp_all
  then show ?thesis
    by (simp add: isStorageAvailable_def)
qed

lemma returns_updateItem:
  assumes "updates \<noteq> JNull" and "updates \<noteq> JUndefined"
  shows "returns (updateItem w st ident updates)"
proof -
  obtain d st1 where l: "load w st = Returns d st1"
    using load_returns by blast
  show ?thesis
  proof (cases "findIndex (\<lambda>item. strict_eq (item_id item) ident) (items d)")
    case None
    with l show ?thesis by (simp add: updateItem_def)
  next
    case (Some i)
    obtain r st3 where "validateItem w st1
        (updatedItem (items d ! i) updates ident (member updates (ascii ''text''))) = Returns r st3"
      using validateItem_ticks by blast
    with assms l Some show ?thesis
      by (cases r) (simp_all add: updateItem_def get_prop_def Let_def)
  qed
qed

lemma throws_updateItem:
  assumes "load w st = Returns d st1"
    and "findIndex (\<lambda>item. strict_eq (item_id item) ident) (items d) = Some i"
    and "updates = JNull \<or> updates = JUndefined"
  shows "updateItem w st ident updates = Throws TypeError st1"
  using assms by (auto simp: updateItem_def get_prop_def)

subsection \<open>updateItem without updates\<close>

text \<open>
  C4. The operations above return for every input, and so does \<open>updateItem\<close> when
  the id is absent or the updates are neither \<open>null\<close> nor \<open>undefined\<close>. But
  \<open>updateItem\<close> is not total: on the id of a stored item and \<open>null\<close> for the
  updates it throws a \<open>TypeError\<close>, raised by reading \<open>updates.text\<close>, after the
  load.
\<close>

theorem updateItem_null_throws:
  "updateItem world0 state_a (JStr (ascii ''a'')) JNull =
     Throws TypeError (state_a\<lparr>clock := 1, n_getItem := 1, n_load := 1\<rparr>)"
  by (simp add: updateItem_def load_state_a get_prop_def doc_a_def item_a_def)

subsection \<open>Texts that sanitizing leaves alone\<close>

lemma tokens_scan_token:
  "\<not> list_ex is_space t \<Longrightarrow> tokens_scan cur t = (if cur @ t = [] then [] else [cur @ t])"
  by (induction t arbitrary: cur) auto

lemma tokens_scan_token_space:
  "\<not> list_ex is_space t \<Longrightarrow> is_space c \<Longrightarrow>
   tokens_scan cur (t @ c # rest) =
     (if cur @ t = [] then tokens_scan [] rest else (cur @ t) # tokens_scan [] rest)"
  by (induction t arbitrary: cur) auto

lemma tokens_scan_clean:
  "\<not> list_ex is_space cur \<Longrightarrow>
   list_all (\<lambda>t. t \<noteq> [] \<and> \<not> list_ex is_space t) (tokens_scan cur s)"
  by (induction s arbitrary: cur) auto

lemma is_space_32: "is_space 0x20"
  by (simp add: is_space_def)

lemma tokens_join:
  "list_all (\<lambda>t. t \<noteq> [] \<and> \<not> list_ex is_space t) toks \<Longrightarrow>
   tokens_scan [] (join_spaces toks) = toks"
proof (induction toks rule: join_spaces.induct)
  case 1
  then show ?case by simp
next
  case (2 t)
  then show ?case by (simp add: tokens_scan_token)
next
  case (3 t t' ts)
  then show ?case
    by (simp add: tokens_scan_token_space is_space_32)
qed

lemma sanitize_join_clean:
  assumes "list_all (\<lambda>t. t \<noteq> [] \<and> \<not> list_ex is_space t) toks"
  shows "sanitizeItem (JStr (join_spaces toks)) = take 200 (join_spaces toks)"
proof -
  from assms have "ws_tokens (join_spaces toks) = toks"
    unfolding ws_tokens_def by (rule tokens_join)
  then show ?thesis
    by (cases "join_spaces toks = []") (simp_all add: slice0_def replace_trim_tokens)
qed

lemma take_token_clean:
  "t \<noteq> [] \<and> \<not> list_ex is_space t \<Longrightarrow> 0 < n \<Longrightarrow>
   take n t \<noteq> [] \<and> \<not> list_ex is_space (take n t)"
  by (auto simp: list_ex_iff dest: in_set_takeD)

lemma take_join_cases:
  assumes "list_all (\<lambda>t. t \<noteq> [] \<and> \<not> list_ex is_space t) toks"
  shows "take n (join_spaces toks) = []
       \<or> is_space (last (take n (join_spaces toks)))
       \<or> (\<exists>toks'. list_all (\<lambda>t. t \<noteq> [] \<and> \<not> list_ex is_space t) toks'
             \<and> take n (join_spaces toks) = join_spaces toks')"
  using assms
proof (induction toks arbitrary: n rule: join_spaces.induct)
  case 1
  then show ?case by simp
next
  case (2 t)
  show ?case
  proof (cases "n = 0")
    case True
    then show ?thesis by simp
  next
    case False
    with 2 have "list_all (\<lambda>t. t \<noteq> [] \<and> \<not> list_ex is_space t) [take n t]"
      using take_token_clean [of t n] by simp
    moreover have "take n (join_spaces [t]) = join_spaces [take n t]" by simp
    ultimately show ?thesis by blast
  qed
next
  case (3 t t' ts)
  let ?rest = "join_spaces (t' # ts)"
  from "3.prems" have ct: "t \<noteq> [] \<and> \<not> list_ex is_space t"
    and cr: "list_all (\<lambda>t. t \<noteq> [] \<and> \<not> list_ex is_space t) (t' # ts)"
    by simp_all
  show ?case
  proof (cases "n \<le> length t")
    case True
    show ?thesis
    proof (cases "n = 0")
      case True
      then show ?thesis by simp
    next
      case False
      with ct have "list_all (\<lambda>t. t \<noteq> [] \<and> \<not> list_ex is_space t) [take n t]"
        using take_token_clean [of t n] by simp
      moreover from True have "take n (join_spaces (t # t' # ts)) = join_spaces [take n t]"
        by simp
      ultimately show ?thesis by blast
    qed
  next
    case False
    then obtain m where m: "n = Suc (length t + m)"
      by (metis add_Suc_right less_iff_Suc_add not_le)
    then have tk: "take n (join_spaces (t # t' # ts)) = t @ 0x20 # take m ?rest"
      by simp
    from "3.IH" [OF cr, of m] consider
      (empty) "take m ?rest = []"
      | (space) "take m ?rest \<noteq> []" "is_space (last (take m ?rest))"
      | (toks) toks' where "take m ?rest \<noteq> []"
          "list_all (\<lambda>t. t \<noteq> [] \<and> \<not> list_ex is_space t) toks'"
          "take m ?rest = join_spaces toks'"
      by blast
    then show ?thesis
    proof cases
      case empty
      with tk show ?thesis by (simp add: is_space_32)
    next
      case space
      with tk show ?thesis by simp
    next
      case toks
      then have ne: "toks' \<noteq> []" by auto
      with toks(3) tk have "take n (join_spaces (t # t' # ts)) = join_spaces (t # toks')"
        by (simp add: join_spaces_Cons)
      moreover from ct toks(2)
      have "list_all (\<lambda>t. t \<noteq> [] \<and> \<not> list_ex is_space t) (t # toks')" by simp
      ultimately show ?thesis by blast
    qed
  qed
qed

lemma sanitize_fixpoint:
  assumes "t = sanitizeItem v" and "t = [] \<or> \<not> is_space (last t)"
  shows "sanitizeItem (JStr t) = t"
proof (cases "\<exists>s. v = JStr s \<and> s \<noteq> []")
  case False
  with assms(1) have "t = []" by (cases v) auto
  then show ?thesis by simp
next
  case True
  then obtain s where v: "v = JStr s" "s \<noteq> []" by blast
  with assms(1) have t: "t = take 200 (join_spaces (ws_tokens s))"
    by (simp add: slice0_def replace_trim_tokens)
  have c: "list_all (\<lambda>t. t \<noteq> [] \<and> \<not> list_ex is_space t) (ws_tokens s)"
    unfolding ws_tokens_def by (rule tokens_scan_clean) simp
  from take_join_cases [OF c, of 200] t assms(2)
  consider "t = []"
    | toks' where "list_all (\<lambda>t. t \<noteq> [] \<and> \<not> list_ex is_space t) toks'" "t = join_spaces toks'"
    by auto
  then show ?thesis
  proof cases
    case 1
    then show ?thesis by simp
  next
    case 2
    from sanitize_join_clean [OF 2(1)] 2(2) have "sanitizeItem (JStr t) = take 200 t"
      by simp
    moreover from t have "length t \<le> 200" by simp
    ultimately show ?thesis by simp
  qed
qed

lemma repaired_fixpoint:
  assumes "repaired it" and "item_text it = [] \<or> \<not> is_space (last (item_text it))"
  shows "sanitizeItem (JStr (item_text it)) = item_text it"
proof -
  from assms(1) obtain v where "item_text it = sanitizeItem v"
    by (auto simp: repaired_def)
  from this assms(2) show ?thesis
    by (rule sanitize_fixpoint)
qed

subsection \<open>Repaired items\<close>

lemma join_spaces_Nil_iff:
  "list_all (\<lambda>t. t \<noteq> [] \<and> \<not> list_ex is_space t) toks \<Longrightarrow> join_spaces toks = [] \<longleftrightarrow> toks = []"
  by (cases toks rule: join_spaces.cases) simp_all

lemma sanitize_empty_iff: "sanitizeItem (JStr s) = [] \<longleftrightarrow> list_all is_space s"
proof (cases "s = []")
  case True
  then show ?thesis by simp
next
  case False
  have c: "list_all (\<lambda>t. t \<noteq> [] \<and> \<not> list_ex is_space t) (ws_tokens s)"
    unfolding ws_tokens_def by (rule tokens_scan_clean) simp
  from False have "sanitizeItem (JStr s) = take 200 (join_spaces (ws_tokens s))"
    by (simp add: slice0_def replace_trim_tokens)
  then have "sanitizeItem (JStr s) = [] \<longleftrightarrow> join_spaces (ws_tokens s) = []"
    by simp
  also have "\<dots> \<longleftrightarrow> ws_tokens s = []"
    by (rule join_spaces_Nil_iff [OF c])
  also have "\<dots> \<longleftrightarrow> list_all is_space s"
    by (simp add: ws_tokens_def tokens_scan_Nil_iff)
  finally show ?thesis .
qed

lemma sanitize_or_empty:
  "sanitizeItem (if truthy v then v else JStr []) = sanitizeItem v"
  by (cases v) auto

lemma take_todo: "take 5 (ascii ''todo-'' @ rest) = ascii ''todo-''"
  by (simp add: ascii_def)

lemma generated_id_truthy: "generated_id v \<Longrightarrow> truthy v"
  by (cases v) (auto simp: generated_id_def ascii_def)

lemma repair_of_repaired: "repair_of w raw it \<Longrightarrow> repaired it"
proof -
  assume r: "repair_of w raw it"
  then have "truthy (item_id it)"
    by (cases "truthy (member raw (ascii ''id''))")
       (auto simp: repair_of_def dest: generated_id_truthy)
  moreover from r have "\<exists>v. item_text it = sanitizeItem v"
    by (auto simp: repair_of_def)
  ultimately show ?thesis by (simp add: repaired_def)
qed

lemma repair_of_empty:
  "repair_of w raw it \<Longrightarrow>
   item_text it = [] \<longleftrightarrow>
     (case member raw (ascii ''text'') of JStr s \<Rightarrow> list_all is_space s | _ \<Rightarrow> True)"
  by (cases "member raw (ascii ''text'')")
     (simp_all add: repair_of_def sanitize_empty_iff del: sanitizeItem.simps, simp_all)

lemma truthy_json_of: "truthy v \<Longrightarrow> truthy (json_of v) \<or> (\<exists>b. v = JNum (Infinity b))"
  by (cases v) (auto split: jsnum.splits)

lemma repaired_json:
  assumes "repaired it"
  shows "member (item_json it) (ascii ''id'') = json_of (item_id it)"
    and "member (item_json it) (ascii ''text'') = JStr (item_text it)"
proof -
  from assms have "truthy (item_id it)" by (simp add: repaired_def)
  then have "item_id it \<noteq> JUndefined" by auto
  then have "json_of (item_id it) \<noteq> JUndefined" by (cases "item_id it") (auto split: jsnum.splits)
  then show "member (item_json it) (ascii ''id'') = json_of (item_id it)"
    "member (item_json it) (ascii ''text'') = JStr (item_text it)"
    by (simp_all add: item_json_def item_val_def)
qed

lemma validateItem_spec:
  "\<exists>r st'. validateItem w st raw = Returns r st' \<and>
     (if is_record raw then \<exists>it. r = Some it \<and> repair_of w raw it else r = None)"
  by (auto simp: validateItem_def generateUUID_def new_Date_toISOString_def Let_def
      is_record_def repair_of_def generated_id_def sanitize_or_empty take_todo
      simp del: sanitizeItem.simps take_append)


lemma map_validateItem_spec:
  "\<exists>rs st'. map_validateItem w st raws = Returns rs st' \<and>
     list_all2 (repair_of w) (filter is_record raws) (filter_Boolean rs)"
proof (induction raws arbitrary: st)
  case Nil
  then show ?case by simp
next
  case (Cons raw raws)
  obtain r st1 where 1: "validateItem w st raw = Returns r st1"
    "if is_record raw then \<exists>it. r = Some it \<and> repair_of w raw it else r = None"
    using validateItem_spec by blast
  obtain rs st2 where 2: "map_validateItem w st1 raws = Returns rs st2"
    "list_all2 (repair_of w) (filter is_record raws) (filter_Boolean rs)"
    using Cons.IH by blast
  from 1 2 show ?case
    by (cases "is_record raw") auto
qed

lemma getDefaultData_items: "getDefaultData w st = Returns d st' \<Longrightarrow> items d = []"
  by (auto simp: getDefaultData_def new_Date_toISOString_def)

lemma load_try_spec:
  assumes "load_try w st = Returns d st'"
  shows "list_all2 (repair_of w) (loaded_records w st) (items d)"
proof (cases "getItem_throws w (n_getItem st)")
  case True
  with assms show ?thesis by (simp add: load_try_def getItem_def)
next
  case False
  let ?s = "st\<lparr>n_getItem := Suc (n_getItem st)\<rparr>"
  from False have g: "getItem w st STORAGE_KEY = Returns (storage st) ?s"
    by (simp add: getItem_def)
  note dflt = getDefaultData_items
  show ?thesis
  proof (cases "storage st")
    case None
    with g assms dflt False show ?thesis
      by (auto simp: load_try_def loaded_records_def stored_items_def)
  next
    case (Some stored)
    show ?thesis
    proof (cases stored)
      case Empty
      with Some g assms dflt False show ?thesis
        by (auto simp: load_try_def loaded_records_def stored_items_def)
    next
      case Malformed
      with Some g assms show ?thesis by (auto simp: load_try_def JSON_parse_def)
    next
      case (Json parsed)
      show ?thesis
      proof (cases "is_array (member parsed (ascii ''items''))")
        case na: False
        with Json Some g assms dflt False show ?thesis
          by (auto simp: load_try_def JSON_parse_def loaded_records_def stored_items_def)
      next
        case True
        then have t: "truthy parsed" by (cases parsed) auto
        obtain d0 s0 where d0: "getDefaultData w ?s = Returns d0 s0"
          using getDefaultData_ticks by blast
        obtain rs s1 where rs:
          "map_validateItem w s0 (elements (member parsed (ascii ''items''))) = Returns rs s1"
          "list_all2 (repair_of w) (filter is_record (elements (member parsed (ascii ''items''))))
             (filter_Boolean rs)"
          using map_validateItem_spec by blast
        from True t Json Some g assms d0 rs(1) have "items d = filter_Boolean rs"
          by (auto simp: load_try_def JSON_parse_def)
        with rs(2) True Json Some False show ?thesis
          by (simp add: loaded_records_def stored_items_def)
      qed
    qed
  qed
qed

lemma loaded_records_n_load [simp]:
  "loaded_records w (st\<lparr>n_load := k\<rparr>) = loaded_records w st"
  by (simp add: loaded_records_def stored_items_def)

lemma load_try_throws:
  assumes "load_try w st = Throws e s'"
  shows "loaded_records w st = []"
proof (cases "getItem_throws w (n_getItem st)")
  case True
  then show ?thesis by (simp add: loaded_records_def)
next
  case False
  let ?s = "st\<lparr>n_getItem := Suc (n_getItem st)\<rparr>"
  from False have g: "getItem w st STORAGE_KEY = Returns (storage st) ?s"
    by (simp add: getItem_def)
  obtain d0 s0 where d0: "getDefaultData w ?s = Returns d0 s0"
    using getDefaultData_ticks by blast
  show ?thesis
  proof (cases "storage st")
    case None
    then show ?thesis by (simp add: loaded_records_def stored_items_def)
  next
    case (Some stored)
    show ?thesis
    proof (cases stored)
      case Empty
      with Some show ?thesis by (simp add: loaded_records_def stored_items_def)
    next
      case Malformed
      with Some show ?thesis by (simp add: loaded_records_def stored_items_def)
    next
      case (Json parsed)
      show ?thesis
      proof (cases "is_array (member parsed (ascii ''items''))")
        case na: False
        with Json Some show ?thesis by (simp add: loaded_records_def stored_items_def)
      next
        case True
        then have t: "truthy parsed" by (cases parsed) auto
        obtain rs s1 where
          "map_validateItem w s0 (elements (member parsed (ascii ''items''))) = Returns rs s1"
          using map_validateItem_ticks by blast
        with True t Json Some g d0 assms show ?thesis
          by (simp add: load_try_def JSON_parse_def)
      qed
    qed
  qed
qed

lemma load_spec:
  assumes "load w st = Returns d st'"
  shows "list_all2 (repair_of w) (loaded_records w st) (items d)"
proof (cases "load_try w (st\<lparr>n_load := Suc (n_load st)\<rparr>)")
  case (Returns d' s')
  with assms have "d' = d" by (simp add: load_def)
  with Returns load_try_spec [of w "st\<lparr>n_load := Suc (n_load st)\<rparr>" d s'] show ?thesis
    by simp
next
  case (Throws e s')
  from load_try_throws [OF Throws] have "loaded_records w st = []" by simp
  moreover from Throws assms have "items d = []"
    by (auto simp: load_def dest: getDefaultData_items)
  ultimately show ?thesis by simp
qed

subsection \<open>What the operations leave in the store\<close>

lemma repaired_length: "repaired it \<Longrightarrow> length (item_text it) \<le> 200"
proof -
  assume "repaired it"
  then obtain v where "item_text it = sanitizeItem v"
    by (auto simp: repaired_def)
  then show ?thesis
    by (cases v) (simp_all add: slice0_def)
qed

lemma leaves_repaired_refl [simp]: "leaves_repaired st st"
  by (simp add: leaves_repaired_def)

lemma leaves_repaired_same:
  "storage st1 = storage st \<Longrightarrow> leaves_repaired st1 st' \<Longrightarrow> leaves_repaired st st'"
  by (simp add: leaves_repaired_def)

lemma handle_leaves_repaired:
  "leaves_repaired st (state_of (handleStorageQuotaExceeded w st))"
proof -
  obtain d st1 where l: "load w st = Returns d st1" "loaded st st1"
    using load_returns by blast
  then have s: "storage st1 = storage st"
    by (simp add: loaded_fields)
  from load_repaired [OF l(1)] have r: "list_all repaired (items d)" .
  have "set (take 50 (sort_items w (items d))) \<subseteq> set (items d)"
    using set_take_subset [of 50 "sort_items w (items d)"] by (simp add: set_sort_items)
  with r have p: "list_all repaired (items (pruned w d))"
    by (auto simp: pruned_def list_all_iff)
  have "store_repaired (st1\<lparr>n_setItem := Suc (n_setItem st1),
      storage := Some (JSON_stringify (doc_val (pruned w d)))\<rparr>)"
    unfolding store_repaired_def
    using p stored_items_raw [where st = "st1\<lparr>n_setItem := Suc (n_setItem st1)\<rparr>"
        and d = "pruned w d"]
    by auto
  with handle_cases [OF l(1)] s show ?thesis
    by (simp add: leaves_repaired_def split: option.splits)
qed

lemma via_save:
  assumes "list_all repaired (items d)" and "no_known_keys d" and "storage st1 = storage st"
  shows "\<exists>ok st'. save w st1 (doc_val d) = Returns ok st' \<and> leaves_repaired st st'
           \<and> (ok \<longrightarrow> store_repaired st')"
proof (cases "setItem_error w (n_setItem st1) STORAGE_KEY (save_text w st1 (doc_val d))")
  case None
  let ?st' = "(after_write st1)\<lparr>storage := Some (save_text w st1 (doc_val d))\<rparr>"
  from None have "save w st1 (doc_val d) = Returns True ?st'"
    by (simp add: save_accepted)
  moreover have "store_repaired ?st'"
    unfolding store_repaired_def
    using assms(1) stored_items_saved [OF assms(2), where st = "after_write st1" and w = w
        and st' = st1]
    by auto
  ultimately show ?thesis
    unfolding leaves_repaired_def by blast
next
  case (Some e)
  show ?thesis
  proof (cases "e = QuotaExceededError")
    case False
    with Some have "save w st1 (doc_val d) = Returns False (after_write st1)"
      by (simp add: save_refused)
    moreover from assms(3) have "leaves_repaired st (after_write st1)"
      by (simp add: after_write_def leaves_repaired_def)
    ultimately show ?thesis by blast
  next
    case True
    obtain st' where h: "handleStorageQuotaExceeded w (after_write st1) = Returns () st'"
      using handle_returns by blast
    with handle_leaves_repaired [of "after_write st1" w]
    have "leaves_repaired (after_write st1) st'" by simp
    with assms(3) have "leaves_repaired st st'"
      by (simp add: leaves_repaired_def after_write_def)
    moreover from Some True h have "save w st1 (doc_val d) = Returns False st'"
      by (simp add: save_quota)
    ultimately show ?thesis by blast
  qed
qed


lemma via_save_op:
  assumes "list_all repaired (items d)" and "no_known_keys d" and "storage st1 = storage st"
  shows "\<exists>ok st'. and_then (save w st1 (doc_val d)) (\<lambda>ok st'. Returns (f ok) st') = Returns (f ok) st'
           \<and> leaves_repaired st st' \<and> (ok \<longrightarrow> store_repaired st')"
  using via_save [OF assms, of w] by auto

lemma addItems_loop_repaired:
  "list_all repaired ditems \<Longrightarrow> list_all (\<lambda>it. item_text it \<noteq> []) acc \<Longrightarrow>
   \<exists>ditems' acc' st'. addItems_loop w st texts ditems acc = Returns (ditems', acc') st'
     \<and> ticked st st' \<and> list_all repaired ditems' \<and> list_all (\<lambda>it. item_text it \<noteq> []) acc'"
proof (induction texts arbitrary: st ditems acc)
  case Nil
  then show ?case by simp
next
  case (Cons t texts)
  show ?case
  proof (cases "sanitizeItem t = []")
    case True
    with Cons.IH [OF Cons.prems, of st] show ?thesis by simp
  next
    case False
    let ?it = "\<lparr>item_id = JStr (ascii ''todo-'' @ dec (now_ms w (clock st)) @ ascii ''-''
                    @ random36 w (Suc (clock st))),
                item_text = sanitizeItem t, completed = False,
                createdAt = JStr (now_iso w (Suc (Suc (clock st))))\<rparr>"
    let ?s = "st\<lparr>clock := Suc (Suc (Suc (clock st)))\<rparr>"
    have "repaired ?it" unfolding repaired_def by auto
    with Cons.prems False have p: "list_all repaired (ditems @ [?it])"
      "list_all (\<lambda>it. item_text it \<noteq> []) (acc @ [?it])"
      by simp_all
    obtain ditems' acc' st' where n:
      "addItems_loop w ?s texts (ditems @ [?it]) (acc @ [?it]) = Returns (ditems', acc') st'"
      "ticked ?s st'" "list_all repaired ditems'" "list_all (\<lambda>it. item_text it \<noteq> []) acc'"
      using Cons.IH [OF p, of ?s] by blast
    have "ticked st ?s" by simp
    from this n(2) have "ticked st st'" by (rule ticked_trans)
    with False n(1,3,4) show ?thesis
      by (simp add: generateUUID_def new_Date_toISOString_def Let_def)
  qed
qed

lemma addItem_outcome:
  "leaves_repaired st (state_of (addItem w st v))
   \<and> (value_of (addItem w st v) = Some (Some it) \<longrightarrow>
        item_text it \<noteq> [] \<and> store_repaired (state_of (addItem w st v)))"
proof (cases "sanitizeItem v = []")
  case True
  then show ?thesis by (simp add: addItem_def)
next
  case False
  obtain d st1 where l: "load w st = Returns d st1" "loaded st st1" "no_known_keys d"
    using load_returns by blast
  obtain new_id st2 where u: "generateUUID w st1 = Returns new_id st2" "ticked st1 st2"
    using generateUUID_ticks by blast
  obtain now st3 where n: "new_Date_toISOString w st2 = Returns now st3" "ticked st2 st3"
    using new_Date_ticks by blast
  let ?new = "\<lparr>item_id = new_id, item_text = sanitizeItem v, completed = False,
                createdAt = now\<rparr>"
  let ?d = "d\<lparr>items := items d @ [?new]\<rparr>"
  let ?f = "\<lambda>ok. if ok then Some ?new else None"
  from truthy_generateUUID [OF u(1)] have "repaired ?new"
    unfolding repaired_def by auto
  with load_repaired [OF l(1)] have r: "list_all repaired (items ?d)" by simp
  from l(3) have nk: "no_known_keys ?d" by (simp add: no_known_keys_def)
  from False l(1) u(1) n(1) have a: "addItem w st v =
      and_then (save w st3 (doc_val ?d)) (\<lambda>ok st4. Returns (?f ok) st4)"
    by (simp add: addItem_def Let_def)
  from l(2) u(2) n(2) have s: "storage st3 = storage st"
    by (simp add: loaded_fields ticked_fields)
  from via_save_op [OF r nk s, of w ?f] a False show ?thesis
    by (auto split: if_splits)
qed

lemma addItems_outcome:
  "leaves_repaired st (state_of (addItems w st v))
   \<and> (value_of (addItems w st v) = Some new \<longrightarrow> list_all (\<lambda>it. item_text it \<noteq> []) new)"
proof (cases "is_array v")
  case False
  then show ?thesis by (auto simp: addItems_def)
next
  case True
  obtain d st1 where l: "load w st = Returns d st1" "loaded st st1" "no_known_keys d"
    using load_returns by blast
  obtain ditems' acc' st2 where n:
    "addItems_loop w st1 (elements v) (items d) [] = Returns (ditems', acc') st2"
    "ticked st1 st2" "list_all repaired ditems'" "list_all (\<lambda>it. item_text it \<noteq> []) acc'"
    using addItems_loop_repaired [OF load_repaired [OF l(1)], of "[]" w st1 "elements v"] by auto
  from l(2) n(2) have s: "storage st2 = storage st"
    by (simp add: loaded_fields ticked_fields)
  let ?d = "d\<lparr>items := ditems'\<rparr>"
  show ?thesis
  proof (cases "acc' = []")
    case e: True
    with True l(1) n(1) s show ?thesis
      by (simp add: addItems_def leaves_repaired_def)
  next
    case ne: False
    from n(3) have r: "list_all repaired (items ?d)" by simp
    from l(3) have nk: "no_known_keys ?d" by (simp add: no_known_keys_def)
    from via_save_op [OF r nk s, of w "\<lambda>ok. acc'"] True l(1) n(1,4) ne show ?thesis
      by (auto simp: addItems_def Let_def)
  qed
qed

lemma deleteItem_outcome:
  "leaves_repaired st (state_of (deleteItem w st ident))
   \<and> (value_of (deleteItem w st ident) = Some True \<longrightarrow>
        store_repaired (state_of (deleteItem w st ident)))"
proof -
  obtain d st1 where l: "load w st = Returns d st1" "loaded st st1" "no_known_keys d"
    using load_returns by blast
  then have s: "storage st1 = storage st" by (simp add: loaded_fields)
  let ?d = "d\<lparr>items := filter (\<lambda>item. \<not> strict_eq (item_id item) ident) (items d)\<rparr>"
  from load_repaired [OF l(1)] have r: "list_all repaired (items ?d)"
    by (simp add: list_all_iff)
  from l(3) have nk: "no_known_keys ?d" by (simp add: no_known_keys_def)
  from via_save [OF r nk s, of w] l(1) s show ?thesis
    by (auto simp: deleteItem_def Let_def leaves_repaired_def)
qed

lemma clearAll_outcome:
  "leaves_repaired st (state_of (clearAll w st))
   \<and> (value_of (clearAll w st) = Some True \<longrightarrow> store_repaired (state_of (clearAll w st)))"
proof -
  obtain d st1 where g: "getDefaultData w st = Returns d st1" "ticked st st1" "items d = []"
    "extras d = []"
    using getDefaultData_ticks by blast
  then have s: "storage st1 = storage st" by (simp add: ticked_fields)
  from g(3) have r: "list_all repaired (items d)" by simp
  from g(4) have nk: "no_known_keys d" by (simp add: no_known_keys_def)
  from via_save [OF r nk s, of w] g(1) show ?thesis
    by (auto simp: clearAll_def)
qed

lemma updateItem_outcome:
  "leaves_repaired st (state_of (updateItem w st ident updates))
   \<and> (value_of (updateItem w st ident updates) = Some (Some it) \<longrightarrow>
        store_repaired (state_of (updateItem w st ident updates)))"
proof -
  obtain d st1 where l: "load w st = Returns d st1" "loaded st st1" "no_known_keys d"
    using load_returns by blast
  then have s: "storage st1 = storage st" by (simp add: loaded_fields)
  show ?thesis
  proof (cases "findIndex (\<lambda>item. strict_eq (item_id item) ident) (items d)")
    case None
    with l(1) s show ?thesis by (simp add: updateItem_def leaves_repaired_def)
  next
    case (Some i)
    show ?thesis
    proof (cases "updates = JNull \<or> updates = JUndefined")
      case True
      with Some l(1) s show ?thesis
        by (auto simp: updateItem_def get_prop_def leaves_repaired_def)
    next
      case False
      let ?raw = "updatedItem (items d ! i) updates ident (member updates (ascii ''text''))"
      obtain r st3 where v: "validateItem w st1 ?raw = Returns r st3" "ticked st1 st3"
        using validateItem_ticks by blast
      with s have s3: "storage st3 = storage st" by (simp add: ticked_fields)
      show ?thesis
      proof (cases r)
        case None
        with False Some l(1) v(1) s3 show ?thesis
          by (simp add: updateItem_def get_prop_def leaves_repaired_def)
      next
        case (Some new_item)
        let ?d = "d\<lparr>items := (items d)[i := new_item]\<rparr>"
        let ?f = "\<lambda>ok. if ok then Some new_item else None"
        from v(1) Some have "repaired new_item" by (auto dest: validateItem_repaired)
        with load_repaired [OF l(1)] have r: "list_all repaired (items ?d)"
          by (auto simp: list_all_iff dest: set_update_subset_insert [THEN subsetD])
        from l(3) have nk: "no_known_keys ?d" by (simp add: no_known_keys_def)
        from False \<open>findIndex _ _ = Some i\<close> Some l(1) v(1)
        have "updateItem w st ident updates =
            and_then (save w st3 (doc_val ?d)) (\<lambda>ok st4. Returns (?f ok) st4)"
          by (simp add: updateItem_def get_prop_def Let_def)
        with via_save_op [OF r nk s3, of w ?f] show ?thesis
          by (auto split: if_splits)
      qed
    qed
  qed
qed

lemma importData_outcome:
  "leaves_repaired st (state_of (importData w st jsonString))
   \<and> (value_of (importData w st jsonString) = Some True \<longrightarrow>
        store_repaired (state_of (importData w st jsonString)))"
proof (cases jsonString)
  case Empty
  then show ?thesis by (simp add: importData_def JSON_parse_def)
next
  case Malformed
  then show ?thesis by (simp add: importData_def JSON_parse_def)
next
  case (Json data)
  show ?thesis
  proof (cases "\<not> truthy data \<or> \<not> is_array (member data (ascii ''items''))")
    case True
    with Json show ?thesis by (auto simp: importData_def JSON_parse_def)
  next
    case False
    obtain dflt st2 where g: "getDefaultData w st = Returns dflt st2" "ticked st st2"
      using getDefaultData_ticks by blast
    obtain rs st3 where m:
      "map_validateItem w st2 (elements (member data (ascii ''items''))) = Returns rs st3"
      "ticked st2 st3"
      using map_validateItem_ticks by blast
    from g(2) m(2) have s: "storage st3 = storage st" by (simp add: ticked_fields)
    let ?d = "(spread_document dflt data)\<lparr>items := filter_Boolean rs\<rparr>"
    from map_validateItem_repaired [OF m(1)] have r: "list_all repaired (items ?d)" by simp
    have nk: "no_known_keys ?d" by (rule no_known_keys_spread)
    from via_save [OF r nk s, of w] False Json g(1) m(1) show ?thesis
      by (auto simp: importData_def JSON_parse_def Let_def)
  qed
qed


lemma map_of_rev_distinct: "distinct (map fst kvs) \<Longrightarrow> map_of (rev kvs) = map_of kvs"
  by (subst map_of_inject_set) (simp_all add: rev_map [symmetric])

lemma save_writes_given:
  assumes "distinct (map fst kvs)" and "map_of kvs (ascii ''items'') = Some (JArr raws)"
    and "setItem_error w (n_setItem st) STORAGE_KEY (save_text w st (JObj kvs)) = None"
  shows "value_of (save w st (JObj kvs)) = Some True"
    and "stored_items (state_of (save w st (JObj kvs)))
           = Some (map (\<lambda>r. undefined_to_null (json_of r)) raws)"
proof -
  let ?now = "JStr (now_iso w (clock st))"
  let ?kvs = "obj_put (obj_put (spread [] (JObj kvs)) (ascii ''lastUpdated'') ?now)
                      (ascii ''version'') (JStr VERSION)"
  from assms(2) have sv: "savable (JObj kvs)" by (simp add: savable_def)
  from save_accepted [OF sv assms(3)]
  have s: "save w st (JObj kvs) =
      Returns True ((after_write st)\<lparr>storage := Some (save_text w st (JObj kvs))\<rparr>)" .
  then show "value_of (save w st (JObj kvs)) = Some True" by simp
  have dist: "distinct (map fst ?kvs)"
    by (intro distinct_obj_put distinct_spread)
  from assms(1,2) have "map_of ?kvs (ascii ''items'') = Some (JArr raws)"
    by (simp add: map_of_obj_put map_of_spread map_of_rev_distinct)
  with dist have "map_of (filter (\<lambda>kv. snd kv \<noteq> JUndefined) (map (map_prod id json_of) ?kvs))
      (ascii ''items'') = Some (JArr (map (\<lambda>r. undefined_to_null (json_of r)) raws))"
    by (simp add: map_of_json_filter)
  then have "member (json_of (dataToSave (JObj kvs) ?now)) (ascii ''items'')
      = JArr (map (\<lambda>r. undefined_to_null (json_of r)) raws)"
    by (simp add: dataToSave_def)
  then show "stored_items (state_of (save w st (JObj kvs)))
      = Some (map (\<lambda>r. undefined_to_null (json_of r)) raws)"
    unfolding s by (simp add: stored_items_def save_text_def JSON_stringify_def)
qed

text \<open>
  C3. The items of a document that \<open>load\<close> returns are the records of the stored
  \<open>items\<close> array as repaired, in their order, the entries that are not objects left
  out; there are none when the storage does not answer or holds no document with such
  an array. A repaired item has the record's id when that is truthy and a generated id
  otherwise, so its id is truthy; its text is the record's text sanitized, of at most
  200 code units, and it is empty exactly when the record's text is not a string or
  holds nothing but whitespace. After \<open>addItem\<close>, \<open>addItems\<close>, \<open>updateItem\<close>,
  \<open>deleteItem\<close>, \<open>importData\<close> and \<open>clearAll\<close> the store holds what it held before,
  or a document whose items are repaired items as JSON writes them: with their text, and
  with their id, which is truthy unless it was a number that is not finite, written as
  \<open>null\<close>. It holds such a document whenever the operation reports success. The items
  that \<open>addItem\<close> and \<open>addItems\<close> return have a text that is not empty. \<open>save\<close>
  itself writes the entries of the \<open>items\<close> array it is given as they are. Nothing makes
  the ids distinct.
\<close>

theorem items_repaired:
  "(load w st = Returns d st' \<longrightarrow>
       list_all2 (repair_of w) (loaded_records w st) (items d) \<and> list_all repaired (items d))
   \<and> (repair_of w raw it \<longrightarrow>
        repaired it
        \<and> (item_text it = [] \<longleftrightarrow>
             (case member raw (ascii ''text'') of JStr s \<Rightarrow> list_all is_space s | _ \<Rightarrow> True)))
   \<and> (repaired it \<longrightarrow>
        truthy (item_id it) \<and> length (item_text it) \<le> 200
        \<and> member (item_json it) (ascii ''text'') = JStr (item_text it)
        \<and> member (item_json it) (ascii ''id'') = json_of (item_id it)
        \<and> (truthy (json_of (item_id it)) \<or> (\<exists>b. item_id it = JNum (Infinity b))))
   \<and> leaves_repaired st (state_of (addItem w st v))
   \<and> leaves_repaired st (state_of (addItems w st v))
   \<and> leaves_repaired st (state_of (updateItem w st ident updates))
   \<and> leaves_repaired st (state_of (deleteItem w st ident))
   \<and> leaves_repaired st (state_of (importData w st jsonString))
   \<and> leaves_repaired st (state_of (clearAll w st))
   \<and> (value_of (addItem w st v) = Some (Some new_item) \<longrightarrow>
        item_text new_item \<noteq> [] \<and> store_repaired (state_of (addItem w st v)))
   \<and> (value_of (addItems w st v) = Some new_items \<longrightarrow>
        list_all (\<lambda>it. item_text it \<noteq> []) new_items)
   \<and> (value_of (updateItem w st ident updates) = Some (Some updated) \<longrightarrow>
        store_repaired (state_of (updateItem w st ident updates)))
   \<and> (value_of (deleteItem w st ident) = Some True \<longrightarrow>
        store_repaired (state_of (deleteItem w st ident)))
   \<and> (value_of (importData w st jsonString) = Some True \<longrightarrow>
        store_repaired (state_of (importData w st jsonString)))
   \<and> (value_of (clearAll w st) = Some True \<longrightarrow> store_repaired (state_of (clearAll w st)))
   \<and> (distinct (map fst kvs) \<and> map_of kvs (ascii ''items'') = Some (JArr raws)
        \<and> setItem_error w (n_setItem st) STORAGE_KEY (save_text w st (JObj kvs)) = None \<longrightarrow>
        value_of (save w st (JObj kvs)) = Some True
        \<and> stored_items (state_of (save w st (JObj kvs)))
            = Some (map (\<lambda>r. undefined_to_null (json_of r)) raws))"
proof -
  have 1: "load w st = Returns d st' \<longrightarrow>
       list_all2 (repair_of w) (loaded_records w st) (items d) \<and> list_all repaired (items d)"
    using load_spec [of w st d st'] load_repaired [of w st d st'] by blast
  have 2: "repair_of w raw it \<longrightarrow>
        repaired it
        \<and> (item_text it = [] \<longleftrightarrow>
             (case member raw (ascii ''text'') of JStr s \<Rightarrow> list_all is_space s | _ \<Rightarrow> True))"
    using repair_of_repaired [of w raw it] repair_of_empty [of w raw it] by blast
  have 3: "repaired it \<longrightarrow>
        truthy (item_id it) \<and> length (item_text it) \<le> 200
        \<and> member (item_json it) (ascii ''text'') = JStr (item_text it)
        \<and> member (item_json it) (ascii ''id'') = json_of (item_id it)
        \<and> (truthy (json_of (item_id it)) \<or> (\<exists>b. item_id it = JNum (Infinity b)))"
    using repaired_length [of it] repaired_json [of it] truthy_json_of [of "item_id it"]
    by (auto simp: repaired_def)
  have 4: "distinct (map fst kvs) \<and> map_of kvs (ascii ''items'') = Some (JArr raws)
        \<and> setItem_error w (n_setItem st) STORAGE_KEY (save_text w st (JObj kvs)) = None \<longrightarrow>
        value_of (save w st (JObj kvs)) = Some True
        \<and> stored_items (state_of (save w st (JObj kvs)))
            = Some (map (\<lambda>r. undefined_to_null (json_of r)) raws)"
    using save_writes_given [of kvs raws w st] by blast
  from 1 2 3 4 addItem_outcome [of st w v new_item] addItems_outcome [of st w v new_items]
    updateItem_outcome [of st w ident updates updated] deleteItem_outcome [of st w ident]
    importData_outcome [of st w jsonString] clearAll_outcome [of st w]
  show ?thesis by blast
qed

lemma sanitize_Nil: "sanitizeItem (JStr []) = []"
  by simp

lemma import_bad:
  "value_of (importData world0 state0 bad_import) = Some True"
  "map_option (\<lambda>d. map (\<lambda>it. (item_id it, item_text it)) (items d))
        (value_of (load world0 (state_of (importData world0 state0 bad_import))))
       = Some [(JStr (ascii ''x''), []), (JStr (ascii ''x''), ascii ''milk'')]"
  by (simp_all add: importData_def bad_import_def JSON_parse_def getDefaultData_def
      new_Date_toISOString_def validateItem_def spread_document_def known_keys_def
      save_def save_try_def setItem_def JSON_stringify_def dataToSave_def spread_def
      doc_val_def item_val_def undefined_to_null_def
      load_def load_try_def getItem_def world0_def state0_def sanitize_milk sanitize_Nil
      Let_def del: sanitizeItem.simps)

lemma save_unchecked:
  "value_of (save world0 state0 unchecked_doc) = Some True"
  "stored_items (state_of (save world0 state0 unchecked_doc))
     = Some [JObj [(ascii ''text'', JStr [0x20])]]"
  by (simp_all add: unchecked_doc_def save_def save_try_def new_Date_toISOString_def setItem_def
      JSON_stringify_def dataToSave_def spread_def undefined_to_null_def stored_items_def
      world0_def state0_def)

lemma loaded_records_state_a: "loaded_records world0 state_a = [item_val item_a]"
  by (simp add: loaded_records_def stored_items_def state_a_def state0_def world0_def
      doc_val_def doc_a_def is_record_def item_val_def)

theorem items_repaired_witness:
  "load world0 state_a = Returns doc_a (state_a\<lparr>clock := 1, n_getItem := 1, n_load := 1\<rparr>)
   \<and> list_all2 (repair_of world0) [item_val item_a] [item_a]
   \<and> repaired item_a \<and> item_text item_a \<noteq> []
   \<and> truthy (item_id item_a) \<and> length (item_text item_a) \<le> 200
   \<and> value_of (importData world0 state0 bad_import) = Some True
   \<and> store_repaired (state_of (importData world0 state0 bad_import))"
proof -
  note t = items_repaired [where w = world0 and st = state_a and d = doc_a
      and st' = "state_a\<lparr>clock := 1, n_getItem := 1, n_load := 1\<rparr>"
      and it = item_a and raw = "item_val item_a"]
  from t load_state_a have 1: "list_all2 (repair_of world0) (loaded_records world0 state_a) (items doc_a)"
    by blast
  then have 2: "list_all2 (repair_of world0) [item_val item_a] [item_a]"
    by (simp add: loaded_records_state_a doc_a_def)
  then have r: "repair_of world0 (item_val item_a) item_a" by simp
  with t have 3: "repaired item_a" by blast
  with t have 4: "truthy (item_id item_a) \<and> length (item_text item_a) \<le> 200" by blast
  have 5: "item_text item_a \<noteq> []" by (simp add: item_a_def)
  from items_repaired [where w = world0 and st = state0 and jsonString = bad_import] import_bad(1)
  have 6: "store_repaired (state_of (importData world0 state0 bad_import))" by blast
  from load_state_a 2 3 4 5 import_bad(1) 6 show ?thesis by blast
qed

text \<open>
  An imported document keeps an item that has no text, with the empty text, and two
  items of the same id. And \<open>save\<close> writes an item that has no id, and a space for its
  text, as it is given.
\<close>

theorem invariant_counterexample:
  "value_of (importData world0 state0 bad_import) = Some True
   \<and> map_option (\<lambda>d. map (\<lambda>it. (item_id it, item_text it)) (items d))
        (value_of (load world0 (state_of (importData world0 state0 bad_import))))
       = Some [(JStr (ascii ''x''), []), (JStr (ascii ''x''), ascii ''milk'')]
   \<and> value_of (save world0 state0 unchecked_doc) = Some True
   \<and> stored_items (state_of (save world0 state0 unchecked_doc))
       = Some [JObj [(ascii ''text'', JStr [0x20])]]"
  using import_bad save_unchecked by simp

lemma validateItem_updatedItem:
  assumes "truthy ident"
  shows "\<exists>new_item st'.
           validateItem w st (updatedItem old updates ident ut) = Returns (Some new_item) st'
           \<and> ticked st st'
           \<and> item_id new_item = ident
           \<and> item_text new_item =
               sanitizeItem (JStr (if truthy ut then sanitizeItem ut else item_text old))
           \<and> completed new_item =
               (case own_prop updates (ascii ''completed'') of
                  None \<Rightarrow> completed old | Some v \<Rightarrow> truthy v)
           \<and> createdAt new_item =
               (case own_prop updates (ascii ''createdAt'') of
                  None \<Rightarrow> if truthy (createdAt old) then createdAt old
                          else JStr (now_iso w (clock st))
                | Some v \<Rightarrow> if truthy v then v else JStr (now_iso w (clock st)))"
proof -
  have obj: "truthy (updatedItem old updates ident ut)" "typeof_object (updatedItem old updates ident ut)"
    by (simp_all add: updatedItem_def)
  show ?thesis
    unfolding validateItem_def
    using assms obj
    by (auto simp: member_updatedItem new_Date_toISOString_def Let_def
        simp del: sanitizeItem.simps split: option.splits)
qed

subsection \<open>updateItem and the text of the item\<close>

lemma join_spaces_last:
  "list_all (\<lambda>t. t \<noteq> [] \<and> \<not> list_ex is_space t) toks \<Longrightarrow> toks \<noteq> [] \<Longrightarrow>
   join_spaces toks \<noteq> [] \<and> \<not> is_space (last (join_spaces toks))"
proof (induction toks rule: join_spaces.induct)
  case 1
  then show ?case by simp
next
  case (2 t)
  then show ?case by (auto simp: list_ex_iff)
next
  case (3 t t' ts)
  then show ?case by simp
qed

lemma sanitize_space_end:
  assumes "t = sanitizeItem v" and "t \<noteq> []" and "is_space (last t)"
  shows "length t = 200"
proof -
  from assms(1,2) obtain s where v: "v = JStr s" "s \<noteq> []"
    by (cases v) (auto split: if_splits)
  let ?j = "join_spaces (ws_tokens s)"
  from v assms(1) have t: "t = take 200 ?j"
    by (simp add: slice0_def replace_trim_tokens)
  have c: "list_all (\<lambda>t. t \<noteq> [] \<and> \<not> list_ex is_space t) (ws_tokens s)"
    unfolding ws_tokens_def by (rule tokens_scan_clean) simp
  from t assms(2) have "ws_tokens s \<noteq> []" by auto
  from join_spaces_last [OF c this] have "\<not> is_space (last ?j)" by simp
  with assms(3) t have "take 200 ?j \<noteq> ?j" by auto
  then have "200 < length ?j" by (metis take_all not_le)
  with t show ?thesis by simp
qed

lemma repair_of_created:
  "repair_of w raw it \<Longrightarrow> \<forall>n. now_iso w n \<noteq> [] \<Longrightarrow> truthy (createdAt it)"
  by (cases "truthy (member raw (ascii ''createdAt''))") (auto simp: repair_of_def)

lemma load_created:
  assumes "load w st = Returns d st'" and "\<forall>n. now_iso w n \<noteq> []" and "i < length (items d)"
  shows "truthy (createdAt (items d ! i))"
proof -
  from load_spec [OF assms(1)] assms(3)
  have "repair_of w (loaded_records w st ! i) (items d ! i)"
    by (simp add: list_all2_conv_all_nth)
  from this assms(2) show ?thesis by (rule repair_of_created)
qed

lemma updateItem_present:
  assumes "load w st = Returns data st1"
    and "findIndex (\<lambda>item. strict_eq (item_id item) ident) (items data) = Some i"
    and "updates \<noteq> JNull" and "updates \<noteq> JUndefined"
  shows "\<exists>new_item st3.
           updateItem w st ident updates =
             and_then (save w st3 (doc_val (data\<lparr>items := (items data)[i := new_item]\<rparr>)))
               (\<lambda>ok st4. Returns (if ok then Some new_item else None) st4)
           \<and> ticked st1 st3
           \<and> item_id new_item = ident
           \<and> item_text new_item =
               sanitizeItem (JStr (if truthy (member updates (ascii ''text''))
                                   then sanitizeItem (member updates (ascii ''text''))
                                   else item_text (items data ! i)))
           \<and> completed new_item =
               (case own_prop updates (ascii ''completed'') of
                  None \<Rightarrow> completed (items data ! i) | Some v \<Rightarrow> truthy v)
           \<and> createdAt new_item =
               (case own_prop updates (ascii ''createdAt'') of
                  None \<Rightarrow> if truthy (createdAt (items data ! i)) then createdAt (items data ! i)
                          else JStr (now_iso w (clock st1))
                | Some v \<Rightarrow> if truthy v then v else JStr (now_iso w (clock st1)))"
proof -
  let ?old = "items data ! i"
  let ?ut = "member updates (ascii ''text'')"
  from findIndex_Some [OF assms(2)] have i: "i < length (items data)"
    and eq: "strict_eq (item_id ?old) ident"
    by simp_all
  from load_repaired [OF assms(1)] i have "repaired ?old"
    by (simp add: list_all_length)
  with eq have t: "truthy ident"
    by (auto simp: repaired_def dest: strict_eq_truthy)
  obtain new_item st3 where v:
    "validateItem w st1 (updatedItem ?old updates ident ?ut) = Returns (Some new_item) st3"
    "ticked st1 st3" "item_id new_item = ident"
    "item_text new_item = sanitizeItem (JStr (if truthy ?ut then sanitizeItem ?ut else item_text ?old))"
    "completed new_item =
       (case own_prop updates (ascii ''completed'') of
          None \<Rightarrow> completed ?old | Some v \<Rightarrow> truthy v)"
    "createdAt new_item =
       (case own_prop updates (ascii ''createdAt'') of
          None \<Rightarrow> if truthy (createdAt ?old) then createdAt ?old else JStr (now_iso w (clock st1))
        | Some v \<Rightarrow> if truthy v then v else JStr (now_iso w (clock st1)))"
    using validateItem_updatedItem [OF t, of w st1 ?old updates ?ut] by blast
  from assms v(1)
  have "updateItem w st ident updates =
      and_then (save w st3 (doc_val (data\<lparr>items := (items data)[i := new_item]\<rparr>)))
        (\<lambda>ok st4. Returns (if ok then Some new_item else None) st4)"
    by (simp add: updateItem_def get_prop_def Let_def)
  with v(2-6) show ?thesis by blast
qed

text \<open>
  C10. For an item of the stored collection, as \<open>load\<close> reads it, and an updates object
  whose \<open>text\<close> is falsy (the empty string, or no \<open>text\<close> at all), \<open>updateItem\<close> saves
  the loaded document with the item replaced by one of the same id whose text is the
  item's text sanitized once more, and returns that item when the save succeeds. That
  text is the item's own text whenever the latter does not end in whitespace, and a
  loaded text that ends in whitespace has 200 code units. A truthy \<open>text\<close> is sanitized,
  and sanitized once more, and applied instead. In both cases \<open>completed\<close> is that of
  the updates as a boolean when the updates have the property, and the item's own
  otherwise; and \<open>createdAt\<close> is that of the updates when they have the property and it
  is truthy, the time of the clock when they have it and it is falsy, and the item's own
  otherwise, which is truthy as long as the clock never reads as the empty string.
\<close>

theorem updateItem_falsy_text:
  assumes "load w st = Returns data st1"
    and "findIndex (\<lambda>item. strict_eq (item_id item) ident) (items data) = Some i"
  shows "\<exists>new_item st3.
           updateItem w st ident (JObj kvs) =
             and_then (save w st3 (doc_val (data\<lparr>items := (items data)[i := new_item]\<rparr>)))
               (\<lambda>ok st4. Returns (if ok then Some new_item else None) st4)
           \<and> ticked st1 st3
           \<and> item_id new_item = ident
           \<and> (\<not> truthy (member (JObj kvs) (ascii ''text'')) \<longrightarrow>
                item_text new_item = sanitizeItem (JStr (item_text (items data ! i)))
                \<and> (item_text (items data ! i) = []
                     \<or> \<not> is_space (last (item_text (items data ! i))) \<longrightarrow>
                    item_text new_item = item_text (items data ! i)))
           \<and> (item_text (items data ! i) \<noteq> [] \<and> is_space (last (item_text (items data ! i))) \<longrightarrow>
                length (item_text (items data ! i)) = 200)
           \<and> (truthy (member (JObj kvs) (ascii ''text'')) \<longrightarrow>
                item_text new_item =
                  sanitizeItem (JStr (sanitizeItem (member (JObj kvs) (ascii ''text'')))))
           \<and> completed new_item =
               (case own_prop (JObj kvs) (ascii ''completed'') of
                  None \<Rightarrow> completed (items data ! i) | Some v \<Rightarrow> truthy v)
           \<and> createdAt new_item =
               (case own_prop (JObj kvs) (ascii ''createdAt'') of
                  None \<Rightarrow> if truthy (createdAt (items data ! i)) then createdAt (items data ! i)
                          else JStr (now_iso w (clock st1))
                | Some v \<Rightarrow> if truthy v then v else JStr (now_iso w (clock st1)))
           \<and> ((\<forall>n. now_iso w n \<noteq> []) \<longrightarrow> truthy (createdAt (items data ! i)))"
proof -
  let ?old = "items data ! i"
  let ?ut = "member (JObj kvs) (ascii ''text'')"
  from findIndex_Some [OF assms(2)] have i: "i < length (items data)" by simp
  with load_repaired [OF assms(1)] have r: "repaired ?old"
    by (simp add: list_all_length)
  obtain new_item st3 where v:
    "updateItem w st ident (JObj kvs) =
       and_then (save w st3 (doc_val (data\<lparr>items := (items data)[i := new_item]\<rparr>)))
         (\<lambda>ok st4. Returns (if ok then Some new_item else None) st4)"
    "ticked st1 st3" "item_id new_item = ident"
    "item_text new_item = sanitizeItem (JStr (if truthy ?ut then sanitizeItem ?ut else item_text ?old))"
    "completed new_item =
       (case own_prop (JObj kvs) (ascii ''completed'') of
          None \<Rightarrow> completed ?old | Some v \<Rightarrow> truthy v)"
    "createdAt new_item =
       (case own_prop (JObj kvs) (ascii ''createdAt'') of
          None \<Rightarrow> if truthy (createdAt ?old) then createdAt ?old else JStr (now_iso w (clock st1))
        | Some v \<Rightarrow> if truthy v then v else JStr (now_iso w (clock st1)))"
    using updateItem_present [OF assms, of "JObj kvs"] by auto
  from v(4) have f: "\<not> truthy ?ut \<longrightarrow> item_text new_item = sanitizeItem (JStr (item_text ?old))"
    by (simp del: sanitizeItem.simps)
  moreover from f repaired_fixpoint [OF r]
  have "\<not> truthy ?ut \<longrightarrow>
      (item_text ?old = [] \<or> \<not> is_space (last (item_text ?old)) \<longrightarrow>
       item_text new_item = item_text ?old)"
    by (auto simp del: sanitizeItem.simps)
  moreover from v(4)
  have "truthy ?ut \<longrightarrow> item_text new_item = sanitizeItem (JStr (sanitizeItem ?ut))"
    by (simp del: sanitizeItem.simps)
  moreover from r have "item_text ?old \<noteq> [] \<and> is_space (last (item_text ?old)) \<longrightarrow>
      length (item_text ?old) = 200"
    unfolding repaired_def using sanitize_space_end by blast
  moreover have "(\<forall>n. now_iso w n \<noteq> []) \<longrightarrow> truthy (createdAt ?old)"
    using load_created [OF assms(1) _ i] by blast
  ultimately show ?thesis
    using v(1,2,3,5,6) by blast
qed


theorem updateItem_falsy_text_witness:
  "(\<exists>new_item st3.
     updateItem world0 state_a (JStr (ascii ''a''))
         (JObj [(ascii ''text'', JStr []), (ascii ''completed'', JBool True),
                (ascii ''createdAt'', JStr [])]) =
       and_then (save world0 st3 (doc_val (doc_a\<lparr>items := (items doc_a)[0 := new_item]\<rparr>)))
         (\<lambda>ok st4. Returns (if ok then Some new_item else None) st4)
     \<and> item_id new_item = JStr (ascii ''a'')
     \<and> item_text new_item = ascii ''milk''
     \<and> completed new_item
     \<and> createdAt new_item = JStr (ascii ''2024-01-01T00:00:00.000Z''))
   \<and> (\<exists>new_item st3.
     updateItem world0 state_a (JStr (ascii ''a'')) (JObj [(ascii ''text'', JStr [])]) =
       and_then (save world0 st3 (doc_val (doc_a\<lparr>items := (items doc_a)[0 := new_item]\<rparr>)))
         (\<lambda>ok st4. Returns (if ok then Some new_item else None) st4)
     \<and> item_text new_item = ascii ''milk''
     \<and> \<not> completed new_item
     \<and> createdAt new_item = JStr (ascii ''2023-12-31T00:00:00.000Z''))"
proof -
  let ?u = "[(ascii ''text'', JStr []), (ascii ''completed'', JBool True),
             (ascii ''createdAt'', JStr [])]"
  let ?v = "[(ascii ''text'', JStr [])]"
  have f: "findIndex (\<lambda>item. strict_eq (item_id item) (JStr (ascii ''a''))) (items doc_a) = Some 0"
    by (simp add: doc_a_def item_a_def)
  have u: "\<not> truthy (member (JObj ?u) (ascii ''text''))"
    "\<not> truthy (member (JObj ?v) (ascii ''text''))"
    by simp_all
  have c: "own_prop (JObj ?u) (ascii ''completed'') = Some (JBool True)"
    "own_prop (JObj ?u) (ascii ''createdAt'') = Some (JStr [])"
    "own_prop (JObj ?v) (ascii ''completed'') = None"
    "own_prop (JObj ?v) (ascii ''createdAt'') = None"
    by (simp_all add: own_prop_def)
  have m: "items doc_a ! 0 = item_a"
    by (simp add: doc_a_def)
  have l: "item_text item_a = [] \<or> \<not> is_space (last (item_text item_a))"
    "item_text item_a = ascii ''milk''" "truthy (createdAt item_a)" "\<not> completed item_a"
    "item_id item_a = JStr (ascii ''a'')"
    "createdAt item_a = JStr (ascii ''2023-12-31T00:00:00.000Z'')"
    by (simp_all add: item_a_def ascii_def is_space_def)
  have n: "now_iso world0 k = ascii ''2024-01-01T00:00:00.000Z''" for k
    by (simp add: world0_def)
  from updateItem_falsy_text [OF load_state_a f, of ?u] u(1) l
  have 1: "\<exists>new_item st3.
     updateItem world0 state_a (JStr (ascii ''a'')) (JObj ?u) =
       and_then (save world0 st3 (doc_val (doc_a\<lparr>items := (items doc_a)[0 := new_item]\<rparr>)))
         (\<lambda>ok st4. Returns (if ok then Some new_item else None) st4)
     \<and> item_id new_item = JStr (ascii ''a'')
     \<and> item_text new_item = ascii ''milk''
     \<and> completed new_item
     \<and> createdAt new_item = JStr (ascii ''2024-01-01T00:00:00.000Z'')"
    unfolding c m n by (auto simp del: sanitizeItem.simps)
  from updateItem_falsy_text [OF load_state_a f, of ?v] u(2) l
  have 2: "\<exists>new_item st3.
     updateItem world0 state_a (JStr (ascii ''a'')) (JObj ?v) =
       and_then (save world0 st3 (doc_val (doc_a\<lparr>items := (items doc_a)[0 := new_item]\<rparr>)))
         (\<lambda>ok st4. Returns (if ok then Some new_item else None) st4)
     \<and> item_text new_item = ascii ''milk''
     \<and> \<not> completed new_item
     \<and> createdAt new_item = JStr (ascii ''2023-12-31T00:00:00.000Z'')"
    unfolding c m n by (auto simp del: sanitizeItem.simps)
  from 1 2 show ?thesis by (rule conjI)
qed

lemma tokens_long:
  "ws_tokens (replicate 199 0x61 @ [0x20, 0x62]) = [replicate 199 0x61, [0x62]]"
  "ws_tokens (replicate 199 0x61 @ [0x20]) = [replicate 199 0x61]"
proof -
  have a: "\<not> list_ex is_space (replicate 199 (0x61 :: jchar))"
    by (simp add: list_ex_iff is_space_def)
  have b: "tokens_scan [] [0x62] = [[0x62]]"
    by (simp add: is_space_def)
  from tokens_scan_token_space [OF a is_space_32, of "[]" "[0x62]"] b
  show "ws_tokens (replicate 199 0x61 @ [0x20, 0x62]) = [replicate 199 0x61, [0x62]]"
    by (simp add: ws_tokens_def)
  from tokens_scan_token_space [OF a is_space_32, of "[]" "[]"]
  show "ws_tokens (replicate 199 0x61 @ [0x20]) = [replicate 199 0x61]"
    by (simp add: ws_tokens_def)
qed

lemma sanitize_long:
  "sanitizeItem (JStr long_text) = replicate 199 0x61 @ [0x20]"
  "sanitizeItem (JStr (replicate 199 0x61 @ [0x20])) = replicate 199 0x61"
  by (simp_all add: long_text_def slice0_def replace_trim_tokens tokens_long)

lemma load_state_long:
  "load world0 state_long =
     Returns (doc_a\<lparr>items := [item_long]\<rparr>) (state_long\<lparr>clock := 1, n_getItem := 1, n_load := 1\<rparr>)"
proof -
  have t: "long_text \<noteq> []" by (simp add: long_text_def)
  show ?thesis
    by (simp add: load_def load_try_def getItem_def JSON_parse_def getDefaultData_def
        new_Date_toISOString_def validateItem_def spread_document_def known_keys_def
        world0_def state_long_def state0_def doc_a_def doc_val_def item_val_def item_long_def
        sanitize_long t Let_def del: sanitizeItem.simps)
qed

lemma update_created:
  "map_option (map_option createdAt)
        (value_of (updateItem world0 state_a (JStr (ascii ''a''))
           (JObj [(ascii ''text'', JStr []), (ascii ''createdAt'', JStr [])])))
     = Some (Some (JStr (ascii ''2024-01-01T00:00:00.000Z'')))"
proof -
  let ?u = "JObj [(ascii ''text'', JStr []), (ascii ''createdAt'', JStr [])]"
  have f: "findIndex (\<lambda>item. strict_eq (item_id item) (JStr (ascii ''a''))) (items doc_a) = Some 0"
    by (simp add: doc_a_def item_a_def)
  have c: "own_prop ?u (ascii ''createdAt'') = Some (JStr [])"
    by (simp add: own_prop_def)
  obtain new_item st3 where v:
    "updateItem world0 state_a (JStr (ascii ''a'')) ?u =
       and_then (save world0 st3 (doc_val (doc_a\<lparr>items := (items doc_a)[0 := new_item]\<rparr>)))
         (\<lambda>ok st4. Returns (if ok then Some new_item else None) st4)"
    "createdAt new_item =
       (case own_prop ?u (ascii ''createdAt'') of
          None \<Rightarrow> if truthy (createdAt (items doc_a ! 0)) then createdAt (items doc_a ! 0)
                  else JStr (now_iso world0 (clock (state_a\<lparr>clock := 1, n_getItem := 1, n_load := 1\<rparr>)))
        | Some v \<Rightarrow> if truthy v then v
                    else JStr (now_iso world0 (clock (state_a\<lparr>clock := 1, n_getItem := 1, n_load := 1\<rparr>))))"
    using updateItem_present [OF load_state_a f, of ?u] by auto
  from v(2) have t: "createdAt new_item = JStr (ascii ''2024-01-01T00:00:00.000Z'')"
    unfolding c by (simp add: world0_def)
  have "setItem_error world0 (n_setItem st3) STORAGE_KEY
      (save_text world0 st3 (doc_val (doc_a\<lparr>items := (items doc_a)[0 := new_item]\<rparr>))) = None"
    by (simp add: world0_def)
  then have "save world0 st3 (doc_val (doc_a\<lparr>items := (items doc_a)[0 := new_item]\<rparr>)) =
      Returns True ((after_write st3)\<lparr>storage :=
        Some (save_text world0 st3 (doc_val (doc_a\<lparr>items := (items doc_a)[0 := new_item]\<rparr>)))\<rparr>)"
    by (simp add: save_accepted)
  with v(1) t show ?thesis by simp
qed

text \<open>
  The text does not always stay: the item whose stored text was cut after a space loses
  the space. And a field of the updates is not always taken over: an empty \<open>createdAt\<close>
  makes \<open>validateItem\<close> stamp the time of the clock, which is neither the one supplied
  nor the item's own.
\<close>

theorem updateItem_text_counterexample:
  "map_option (\<lambda>d. map item_text (items d)) (value_of (load world0 state_long))
     = Some [replicate 199 0x61 @ [0x20]]
   \<and> \<not> truthy (member (JObj [(ascii ''text'', JStr [])]) (ascii ''text''))
   \<and> map_option (map_option item_text)
        (value_of (updateItem world0 state_long (JStr (ascii ''a''))
           (JObj [(ascii ''text'', JStr [])])))
     = Some (Some (replicate 199 0x61))
   \<and> map_option (\<lambda>d. map createdAt (items d)) (value_of (load world0 state_a))
     = Some [JStr (ascii ''2023-12-31T00:00:00.000Z'')]
   \<and> map_option (map_option createdAt)
        (value_of (updateItem world0 state_a (JStr (ascii ''a''))
           (JObj [(ascii ''text'', JStr []), (ascii ''createdAt'', JStr [])])))
     = Some (Some (JStr (ascii ''2024-01-01T00:00:00.000Z'')))"
proof -
  let ?d = "doc_a\<lparr>items := [item_long]\<rparr>"
  let ?u = "JObj [(ascii ''text'', JStr [])]"
  have f: "findIndex (\<lambda>item. strict_eq (item_id item) (JStr (ascii ''a''))) (items ?d) = Some 0"
    by (simp add: item_long_def)
  obtain new_item st3 where v:
    "updateItem world0 state_long (JStr (ascii ''a'')) ?u =
       and_then (save world0 st3 (doc_val (?d\<lparr>items := (items ?d)[0 := new_item]\<rparr>)))
         (\<lambda>ok st4. Returns (if ok then Some new_item else None) st4)"
    "item_text new_item =
       sanitizeItem (JStr (if truthy (member ?u (ascii ''text''))
                           then sanitizeItem (member ?u (ascii ''text''))
                           else item_text (items ?d ! 0)))"
    using updateItem_present [OF load_state_long f, of ?u] by auto
  from v(2) have t: "item_text new_item = replicate 199 0x61"
    by (simp add: item_long_def sanitize_long del: sanitizeItem.simps)
  have "setItem_error world0 (n_setItem st3) STORAGE_KEY
      (save_text world0 st3 (doc_val (?d\<lparr>items := (items ?d)[0 := new_item]\<rparr>))) = None"
    by (simp add: world0_def)
  then have "save world0 st3 (doc_val (?d\<lparr>items := (items ?d)[0 := new_item]\<rparr>)) =
      Returns True ((after_write st3)\<lparr>storage :=
        Some (save_text world0 st3 (doc_val (?d\<lparr>items := (items ?d)[0 := new_item]\<rparr>)))\<rparr>)"
    by (simp add: save_accepted)
  with v(1) t have "map_option (map_option item_text)
      (value_of (updateItem world0 state_long (JStr (ascii ''a'')) ?u))
      = Some (Some (replicate 199 0x61))"
    by simp
  moreover have "map_option (\<lambda>d. map createdAt (items d)) (value_of (load world0 state_a))
      = Some [JStr (ascii ''2023-12-31T00:00:00.000Z'')]"
    by (simp add: load_state_a doc_a_def item_a_def)
  ultimately show ?thesis
    using update_created by (simp add: load_state_long item_long_def)
qed

end
